theory Spec2Isabelle
  imports Main "HOL-Library.AList"
begin

section \<open>Data model\<close>

text \<open>
  Exceptions of the Python code are values. Only two exception classes are raised by the
  modelled files, each with a message: \<^verbatim>\<open>IndexError\<close> (by \<^verbatim>\<open>SparseMatrix.set\<close>) and
  \<^verbatim>\<open>ValueError\<close> (by \<^verbatim>\<open>check_dimensions\<close> and by the parser). An exception of a built-in
  that is an instance of \<^verbatim>\<open>ValueError\<close>, as \<^verbatim>\<open>UnicodeEncodeError\<close> is, is a \<^verbatim>\<open>ValueError\<close>
  here.
\<close>

datatype error = IndexError string | ValueError string

text \<open>
  A Python \<^verbatim>\<open>dict\<close> is an association list in insertion order with pairwise distinct keys:
  \<^verbatim>\<open>d[k] = v\<close> is \<^const>\<open>AList.update\<close> (an existing key keeps its place, a new key goes
  to the end), \<^verbatim>\<open>del d[k]\<close> is \<^const>\<open>AList.delete\<close>, \<^verbatim>\<open>d.get(k, x)\<close> reads
  \<^const>\<open>map_of\<close>, and \<^verbatim>\<open>d.items()\<close> is the list itself.

  The values of a matrix are of a type \<open>'v\<close> with a zero; the arithmetic operations ask
  for \<open>+\<close>, \<open>-\<close> and \<open>*\<close> on it and assume no law of them. A theorem that needs a law of
  exact arithmetic says so, in the sort of \<open>'v\<close> or in a hypothesis on the stored values.
\<close>

type_synonym 'v dict = "((int \<times> int) \<times> 'v) list"

record 'v SparseMatrix =
  rows :: int
  cols :: int
  data :: "'v dict"

text \<open>
  Objects live in a store: an address is an index into the list of all \<^verbatim>\<open>SparseMatrix\<close>
  objects allocated so far, and allocation appends. Every object owns its dictionary:
  \<^verbatim>\<open>__init__\<close> binds \<^verbatim>\<open>self.data\<close> to a new \<^verbatim>\<open>{}\<close> and nothing in the repository rebinds
  that attribute, so the address of a matrix identifies its entry storage.
\<close>

type_synonym addr = nat
type_synonym 'v store = "'v SparseMatrix list"

text \<open>
  The parser stores Python \<^verbatim>\<open>float\<close> values. \<open>pyfloat\<close> has the part of them that does not
  obey the laws of exact arithmetic: the two infinities and NaN, with IEEE 754 arithmetic
  as Python computes it (\<^verbatim>\<open>inf - inf\<close>, \<^verbatim>\<open>inf + (-inf)\<close> and \<^verbatim>\<open>inf * 0\<close> are \<^verbatim>\<open>nan\<close>, and
  \<^verbatim>\<open>nan\<close> stays \<^verbatim>\<open>nan\<close>), next to the finite values that are whole numbers, on which float
  arithmetic is exact as long as the magnitudes stay below \<open>2\<^sup>5\<^sup>3\<close>. Rounding is not
  modelled. The test \<^verbatim>\<open>value != 0\<close> is true of \<^verbatim>\<open>nan\<close> and of the infinities, as \<open>\<noteq>\<close> is
  here.
\<close>

datatype pyfloat = Finite int | PosInf | NegInf | NaN

instantiation pyfloat :: "{comm_monoid_add, minus, times}"
begin

definition zero_pyfloat :: pyfloat where
  "zero_pyfloat = Finite 0"

fun plus_pyfloat :: "pyfloat \<Rightarrow> pyfloat \<Rightarrow> pyfloat" where
  "plus_pyfloat (Finite x) (Finite y) = Finite (x + y)"
| "plus_pyfloat NaN y = NaN"
| "plus_pyfloat x NaN = NaN"
| "plus_pyfloat PosInf NegInf = NaN"
| "plus_pyfloat NegInf PosInf = NaN"
| "plus_pyfloat PosInf y = PosInf"
| "plus_pyfloat x PosInf = PosInf"
| "plus_pyfloat NegInf y = NegInf"
| "plus_pyfloat x NegInf = NegInf"

fun minus_pyfloat :: "pyfloat \<Rightarrow> pyfloat \<Rightarrow> pyfloat" where
  "minus_pyfloat (Finite x) (Finite y) = Finite (x - y)"
| "minus_pyfloat NaN y = NaN"
| "minus_pyfloat x NaN = NaN"
| "minus_pyfloat PosInf PosInf = NaN"
| "minus_pyfloat NegInf NegInf = NaN"
| "minus_pyfloat PosInf y = PosInf"
| "minus_pyfloat x PosInf = NegInf"
| "minus_pyfloat NegInf y = NegInf"
| "minus_pyfloat x NegInf = PosInf"

fun times_pyfloat :: "pyfloat \<Rightarrow> pyfloat \<Rightarrow> pyfloat" where
  "times_pyfloat (Finite x) (Finite y) = Finite (x * y)"
| "times_pyfloat NaN y = NaN"
| "times_pyfloat x NaN = NaN"
| "times_pyfloat PosInf (Finite y) = (if y = 0 then NaN else if 0 < y then PosInf else NegInf)"
| "times_pyfloat NegInf (Finite y) = (if y = 0 then NaN else if 0 < y then NegInf else PosInf)"
| "times_pyfloat (Finite x) PosInf = (if x = 0 then NaN else if 0 < x then PosInf else NegInf)"
| "times_pyfloat (Finite x) NegInf = (if x = 0 then NaN else if 0 < x then NegInf else PosInf)"
| "times_pyfloat PosInf PosInf = PosInf"
| "times_pyfloat NegInf NegInf = PosInf"
| "times_pyfloat PosInf NegInf = NegInf"
| "times_pyfloat NegInf PosInf = NegInf"

instance
proof (standard, goal_cases)
  case (1 x y z)
  show ?case by (cases x; cases y; cases z) simp_all
next
  case (2 x y)
  show ?case by (cases x; cases y) simp_all
next
  case (3 x)
  show ?case by (cases x) (simp_all add: zero_pyfloat_def)
qed

end

section \<open>matrix\_core.py\<close>

text \<open>\<^verbatim>\<open>SparseMatrix(rows, cols)\<close>: allocates the object and returns its address.\<close>

definition SparseMatrix_init :: "int \<Rightarrow> int \<Rightarrow> 'v store \<Rightarrow> addr \<times> 'v store" where
  "SparseMatrix_init rows' cols' s =
     (length s, s @ [\<lparr>rows = rows', cols = cols', data = []\<rparr>])"

text \<open>
  \<^verbatim>\<open>self.set(row, col, value)\<close>. The outcome is \<open>Inl\<close> of the exception raised or
  \<open>Inr ()\<close>; the store after the call is returned in both cases.
\<close>

definition set_val ::
  "addr \<Rightarrow> int \<Rightarrow> int \<Rightarrow> 'v::zero \<Rightarrow> 'v store \<Rightarrow> (error + unit) \<times> 'v store" where
  "set_val self row col val s =
     (if row < 0 \<or> col < 0 \<or> row \<ge> rows (s ! self) \<or> col \<ge> cols (s ! self)
      then (Inl (IndexError ''Index out of bounds.''), s)
      else if val \<noteq> 0
      then (Inr (), s[self := (s ! self)\<lparr>data := AList.update (row, col) val (data (s ! self))\<rparr>])
      else if (row, col) \<in> set (map fst (data (s ! self)))
      then (Inr (), s[self := (s ! self)\<lparr>data := AList.delete (row, col) (data (s ! self))\<rparr>])
      else (Inr (), s))"

text \<open>\<^verbatim>\<open>self.get(row, col)\<close>, that is \<^verbatim>\<open>self.data.get((row, col), 0)\<close>.\<close>

definition get :: "addr \<Rightarrow> int \<Rightarrow> int \<Rightarrow> 'v::zero store \<Rightarrow> 'v" where
  "get self row col s =
     (case map_of (data (s ! self)) (row, col) of None \<Rightarrow> 0 | Some v \<Rightarrow> v)"

text \<open>\<^verbatim>\<open>self.items()\<close>: the entries in the dictionary's order.\<close>

definition items :: "addr \<Rightarrow> 'v store \<Rightarrow> ((int \<times> int) \<times> 'v) list" where
  "items self s = data (s ! self)"

section \<open>operations.py\<close>

text \<open>
  A \<^verbatim>\<open>for x in xs: body\<close> statement whose body may raise: the first exception ends the
  loop and is the outcome, with the store as the body left it.
\<close>

fun for_each ::
  "'x list \<Rightarrow> ('x \<Rightarrow> 's \<Rightarrow> (error + unit) \<times> 's) \<Rightarrow> 's \<Rightarrow> (error + unit) \<times> 's" where
  "for_each [] body s = (Inr (), s)"
| "for_each (x # xs) body s =
     (case body x s of
        (Inl e, s') \<Rightarrow> (Inl e, s')
      | (Inr _, s') \<Rightarrow> for_each xs body s')"

text \<open>\<^verbatim>\<open>check_dimensions(a, b, operation)\<close> only reads its arguments.\<close>

definition check_dimensions :: "addr \<Rightarrow> addr \<Rightarrow> string \<Rightarrow> 'v store \<Rightarrow> error + unit" where
  "check_dimensions a b operation s =
     (if operation \<in> {''add'', ''subtract''}
      then (if rows (s ! a) \<noteq> rows (s ! b) \<or> cols (s ! a) \<noteq> cols (s ! b)
            then Inl (ValueError ''Matrix dimensions must match for addition or subtraction.'')
            else Inr ())
      else if operation = ''multiply''
      then (if cols (s ! a) \<noteq> rows (s ! b)
            then Inl (ValueError ''Matrix A columns must equal Matrix B rows for multiplication.'')
            else Inr ())
      else Inl (ValueError ''Unknown operation.''))"

text \<open>
  \<^verbatim>\<open>add(a, b)\<close> and \<^verbatim>\<open>subtract(a, b)\<close>: the outcome is the exception or the address of the
  result. Each \<^verbatim>\<open>for\<close> loop runs over the \<^verbatim>\<open>items()\<close> of its matrix as they are when the
  loop starts.
\<close>

definition add ::
  "addr \<Rightarrow> addr \<Rightarrow> 'v::{zero,plus} store \<Rightarrow> (error + addr) \<times> 'v store" where
  "add a b s =
     (case check_dimensions a b ''add'' s of
        Inl e \<Rightarrow> (Inl e, s)
      | Inr _ \<Rightarrow>
          (case SparseMatrix_init (rows (s ! a)) (cols (s ! a)) s of
             (result, s1) \<Rightarrow>
               (case for_each (items a s1) (\<lambda>((i, j), val). set_val result i j val) s1 of
                  (Inl e, s2) \<Rightarrow> (Inl e, s2)
                | (Inr _, s2) \<Rightarrow>
                    (case for_each (items b s2)
                            (\<lambda>((i, j), val) t. set_val result i j (get result i j t + val) t) s2 of
                       (Inl e, s3) \<Rightarrow> (Inl e, s3)
                     | (Inr _, s3) \<Rightarrow> (Inr result, s3)))))"

definition subtract ::
  "addr \<Rightarrow> addr \<Rightarrow> 'v::{zero,minus} store \<Rightarrow> (error + addr) \<times> 'v store" where
  "subtract a b s =
     (case check_dimensions a b ''subtract'' s of
        Inl e \<Rightarrow> (Inl e, s)
      | Inr _ \<Rightarrow>
          (case SparseMatrix_init (rows (s ! a)) (cols (s ! a)) s of
             (result, s1) \<Rightarrow>
               (case for_each (items a s1) (\<lambda>((i, j), val). set_val result i j val) s1 of
                  (Inl e, s2) \<Rightarrow> (Inl e, s2)
                | (Inr _, s2) \<Rightarrow>
                    (case for_each (items b s2)
                            (\<lambda>((i, j), val) t. set_val result i j (get result i j t - val) t) s2 of
                       (Inl e, s3) \<Rightarrow> (Inl e, s3)
                     | (Inr _, s3) \<Rightarrow> (Inr result, s3)))))"

text \<open>
  The auxiliary structure of \<^verbatim>\<open>multiply\<close>: \<^verbatim>\<open>b_cols\<close>, a dictionary from a row index of
  \<^verbatim>\<open>b\<close> to the dictionary of that row (column index to value). It is local to the call.
  One round of the loop that builds it:
  \<^verbatim>\<open>if row not in b_cols: b_cols[row] = {}\<close> and then \<^verbatim>\<open>b_cols[row][col] = val\<close>.
\<close>

definition b_cols_step ::
  "(int \<times> (int \<times> 'v) list) list \<Rightarrow> (int \<times> int) \<times> 'v \<Rightarrow> (int \<times> (int \<times> 'v) list) list" where
  "b_cols_step b_cols = (\<lambda>((row, col), val).
     (let b_cols1 = (if row \<notin> set (map fst b_cols) then AList.update row [] b_cols else b_cols)
      in AList.map_entry row (AList.update col val) b_cols1))"

definition multiply ::
  "addr \<Rightarrow> addr \<Rightarrow> 'v::{zero,plus,times} store \<Rightarrow> (error + addr) \<times> 'v store" where
  "multiply a b s =
     (case check_dimensions a b ''multiply'' s of
        Inl e \<Rightarrow> (Inl e, s)
      | Inr _ \<Rightarrow>
          (case SparseMatrix_init (rows (s ! a)) (cols (s ! b)) s of
             (result, s1) \<Rightarrow>
               (let b_cols = foldl b_cols_step [] (items b s1) in
                (case for_each (items a s1)
                        (\<lambda>((i, k), val_a) t.
                           (case map_of b_cols k of
                              None \<Rightarrow> (Inr (), t)
                            | Some row_k \<Rightarrow>
                                for_each row_k
                                  (\<lambda>(j, val_b) u.
                                     set_val result i j (get result i j u + val_a * val_b) u) t))
                        s1 of
                   (Inl e, s2) \<Rightarrow> (Inl e, s2)
                 | (Inr _, s2) \<Rightarrow> (Inr result, s2)))))"

section \<open>matrix\_io.py\<close>

text \<open>
  The string methods the parser uses: \<^verbatim>\<open>s.startswith(p)\<close>, \<^verbatim>\<open>s.endswith(p)\<close>,
  \<^verbatim>\<open>s.split(sep)\<close> for a separator of one character, and \<^verbatim>\<open>str(n)\<close> for the line
  numbers of the messages.
\<close>

definition startswith :: "string \<Rightarrow> string \<Rightarrow> bool" where
  "startswith s p \<longleftrightarrow> take (length p) s = p"

definition endswith :: "string \<Rightarrow> string \<Rightarrow> bool" where
  "endswith s p \<longleftrightarrow> length p \<le> length s \<and> drop (length s - length p) s = p"

fun str_split :: "char \<Rightarrow> string \<Rightarrow> string list" where
  "str_split sep [] = [[]]"
| "str_split sep (c # cs) =
     (if c = sep then [] # str_split sep cs
      else (case str_split sep cs of
              [] \<Rightarrow> [[c]]
            | w # ws \<Rightarrow> (c # w) # ws))"

fun str_nat :: "nat \<Rightarrow> string" where
  "str_nat n =
     (if n < 10 then [''0123456789'' ! n]
      else str_nat (n div 10) @ [''0123456789'' ! (n mod 10)])"

declare str_nat.simps [simp del]

definition str_int :: "int \<Rightarrow> string" where
  "str_int i = (if i < 0 then ''-'' @ str_nat (nat (- i)) else str_nat (nat i))"

text \<open>
  The built-ins \<^verbatim>\<open>int\<close>, \<^verbatim>\<open>float\<close> and \<^verbatim>\<open>print\<close> are parameters \<open>py_int\<close>, \<open>py_float\<close> and
  \<open>py_print\<close>. \<open>py_int\<close> and \<open>py_float\<close> applied to a string give the number, or \<open>Inl\<close> of
  the message of the \<^verbatim>\<open>ValueError\<close> they raise. \<open>py_print\<close> applied to a text returns, or
  gives \<open>Inl\<close> of the exception it raises; the \<^verbatim>\<open>UnicodeEncodeError\<close> of a standard output
  that cannot encode the text is a \<^verbatim>\<open>ValueError\<close> (its subclass), so an
  \<^verbatim>\<open>except ValueError\<close> catches it. What is written on standard output is not part of the
  state.

  The only \<^verbatim>\<open>print\<close> inside the loop is the warning of a skipped entry, whose text starts
  with U+26A0 U+FE0F (six bytes in UTF-8). The summary after the loop prints ASCII text
  only, is reached only after such a warning has been printed, and is left out together
  with the counters that only feed it.

  The input is \<^verbatim>\<open>lines\<close>: the stripped, non-empty lines of the file. Reading the file is
  outside the model.

  \<open>entry_of_line\<close> is the part of the loop body that turns one line into
  \<^verbatim>\<open>(row, col, val)\<close> or raises. The indexings \<^verbatim>\<open>parts[0]\<close>, \<^verbatim>\<open>parts[1]\<close>, \<^verbatim>\<open>parts[2]\<close>
  come after the test that \<^verbatim>\<open>parts\<close> has three elements, and \<^verbatim>\<open>split("=")[1]\<close> after the
  test that the line starts with \<^verbatim>\<open>rows=\<close> or \<^verbatim>\<open>cols=\<close>, so none of them is out of range.
\<close>

definition skip_warning :: "nat \<Rightarrow> int \<Rightarrow> int \<Rightarrow> int \<Rightarrow> int \<Rightarrow> string" where
  "skip_warning line_num row col rows' cols' =
     [CHR 0xE2, CHR 0x9A, CHR 0xA0, CHR 0xEF, CHR 0xB8, CHR 0x8F] @
     '' Skipping out-of-bounds index at line '' @ str_nat line_num @
     '': ('' @ str_int row @ '', '' @ str_int col @
     '') - valid range is (0-'' @ str_int (rows' - 1) @ '', 0-'' @ str_int (cols' - 1) @ '')''"

definition entry_of_line ::
  "(string \<Rightarrow> string + int) \<Rightarrow> (string \<Rightarrow> string + 'v) \<Rightarrow> nat \<Rightarrow> string
     \<Rightarrow> error + (int \<times> int \<times> 'v)" where
  "entry_of_line py_int py_float line_num line =
     (if \<not> (startswith line ''('' \<and> endswith line '')'')
      then Inl (ValueError (''Invalid format in line '' @ str_nat line_num @ '': '' @ line))
      else
        (let parts = str_split CHR '','' (filter (\<lambda>c. c \<noteq> CHR '' '') (butlast (tl line))) in
         if length parts \<noteq> 3
         then Inl (ValueError (''Expected 3 values in line '' @ str_nat line_num @ '': '' @ line))
         else
           (case (py_int (parts ! 0), py_int (parts ! 1), py_float (parts ! 2)) of
              (Inr row, Inr col, Inr val) \<Rightarrow> Inr (row, col, val)
            | _ \<Rightarrow>
                Inl (ValueError (''Non-numeric value in line '' @ str_nat line_num @ '': '' @ line)))))"

text \<open>
  One round of the loop. Everything from the two \<^verbatim>\<open>int\<close> calls to \<^verbatim>\<open>matrix.set\<close> is inside
  the \<^verbatim>\<open>try\<close>, the \<^verbatim>\<open>print\<close> of the warning too: a \<^verbatim>\<open>ValueError\<close> raised there is replaced
  by the \<^verbatim>\<open>ValueError\<close> of a non-numeric value, any other exception passes.
\<close>

definition parse_line ::
  "(string \<Rightarrow> string + int) \<Rightarrow> (string \<Rightarrow> string + 'v::zero) \<Rightarrow> (string \<Rightarrow> error + unit)
     \<Rightarrow> addr \<Rightarrow> int \<Rightarrow> int \<Rightarrow> nat \<times> string \<Rightarrow> 'v store \<Rightarrow> (error + unit) \<times> 'v store" where
  "parse_line py_int py_float py_print matrix rows' cols' = (\<lambda>(line_num, line) s.
     (case entry_of_line py_int py_float line_num line of
        Inl e \<Rightarrow> (Inl e, s)
      | Inr (row, col, val) \<Rightarrow>
          if \<not> (0 \<le> row \<and> row < rows') \<or> \<not> (0 \<le> col \<and> col < cols')
          then
            (case py_print (skip_warning line_num row col rows' cols') of
               Inl (ValueError m) \<Rightarrow>
                 (Inl (ValueError
                    (''Non-numeric value in line '' @ str_nat line_num @ '': '' @ line)), s)
             | Inl (IndexError m) \<Rightarrow> (Inl (IndexError m), s)
             | Inr u \<Rightarrow> (Inr (), s))
          else
            (case set_val matrix row col val s of
               (Inl (ValueError m), s') \<Rightarrow>
                 (Inl (ValueError
                    (''Non-numeric value in line '' @ str_nat line_num @ '': '' @ line)), s')
             | (Inl (IndexError m), s') \<Rightarrow> (Inl (IndexError m), s')
             | (Inr u, s') \<Rightarrow> (Inr u, s'))))"

definition parse_matrix_file ::
  "(string \<Rightarrow> string + int) \<Rightarrow> (string \<Rightarrow> string + 'v::zero) \<Rightarrow> (string \<Rightarrow> error + unit)
     \<Rightarrow> string list \<Rightarrow> 'v store \<Rightarrow> (error + addr) \<times> 'v store" where
  "parse_matrix_file py_int py_float py_print lines s =
     (if length lines < 2 \<or> \<not> startswith (lines ! 0) ''rows='' \<or> \<not> startswith (lines ! 1) ''cols=''
      then (Inl (ValueError ''Invalid file format: missing rows/cols declaration''), s)
      else
        (case py_int (str_split CHR ''='' (lines ! 0) ! 1) of
           Inl m \<Rightarrow> (Inl (ValueError m), s)
         | Inr rows' \<Rightarrow>
             (case py_int (str_split CHR ''='' (lines ! 1) ! 1) of
                Inl m \<Rightarrow> (Inl (ValueError m), s)
              | Inr cols' \<Rightarrow>
                  (case SparseMatrix_init rows' cols' s of
                     (matrix, s1) \<Rightarrow>
                       (case for_each (enumerate 3 (drop 2 lines))
                               (parse_line py_int py_float py_print matrix rows' cols') s1 of
                          (Inl e, s2) \<Rightarrow> (Inl e, s2)
                        | (Inr _, s2) \<Rightarrow> (Inr matrix, s2))))))"

section \<open>Vocabulary of the properties\<close>

text \<open>The error kinds of the specification, as the exceptions the code raises for them.\<close>

definition IndexOutOfBounds :: error where
  "IndexOutOfBounds = IndexError ''Index out of bounds.''"

definition DimensionMismatch :: "error \<Rightarrow> bool" where
  "DimensionMismatch e \<longleftrightarrow>
     e = ValueError ''Matrix dimensions must match for addition or subtraction.'' \<or>
     e = ValueError ''Matrix A columns must equal Matrix B rows for multiplication.''"

text \<open>
  Invariant I1 (every key lies inside the shape), invariant I2 (no stored value is zero)
  and the property that makes an association list a dictionary (no key twice).
\<close>

definition in_bounds :: "'v SparseMatrix \<Rightarrow> bool" where
  "in_bounds m = list_all (\<lambda>((r, c), v). 0 \<le> r \<and> r < rows m \<and> 0 \<le> c \<and> c < cols m) (data m)"

definition no_zero :: "'v::zero SparseMatrix \<Rightarrow> bool" where
  "no_zero m = list_all (\<lambda>(k, v). v \<noteq> 0) (data m)"

definition well_formed :: "'v SparseMatrix \<Rightarrow> bool" where
  "well_formed m \<longleftrightarrow> distinct (map fst (data m)) \<and> in_bounds m"

text \<open>
  A caller that makes a sequence of \<^verbatim>\<open>set\<close> calls on one matrix, going on after a call
  that raised.
\<close>

definition set_calls :: "addr \<Rightarrow> (int \<times> int \<times> 'v::zero) list \<Rightarrow> 'v store \<Rightarrow> 'v store" where
  "set_calls self calls s = foldl (\<lambda>t (row, col, val). snd (set_val self row col val t)) s calls"

section \<open>Auxiliary facts\<close>

subsection \<open>One call of set\<close>

lemma set_val_length [simp]: "length (snd (set_val r i j v s)) = length s"
  by (simp add: set_val_def)

lemma set_val_other [simp]: "p \<noteq> r \<Longrightarrow> snd (set_val r i j v s) ! p = s ! p"
  by (simp add: set_val_def)

lemma set_val_take [simp]: "n \<le> r \<Longrightarrow> take n (snd (set_val r i j v s)) = take n s"
  by (simp add: set_val_def)

lemma set_val_rows [simp]: "rows (snd (set_val r i j v s) ! r) = rows (s ! r)"
  by (cases "r < length s") (simp_all add: set_val_def list_update_beyond)

lemma set_val_cols [simp]: "cols (snd (set_val r i j v s) ! r) = cols (s ! r)"
  by (cases "r < length s") (simp_all add: set_val_def list_update_beyond)

lemma set_val_fst:
  "fst (set_val r i j v s) =
     (if 0 \<le> i \<and> i < rows (s ! r) \<and> 0 \<le> j \<and> j < cols (s ! r) then Inr ()
      else Inl (IndexError ''Index out of bounds.''))"
  by (auto simp add: set_val_def)

lemma set_val_fail:
  "\<not> (0 \<le> i \<and> i < rows (s ! r) \<and> 0 \<le> j \<and> j < cols (s ! r)) \<Longrightarrow> snd (set_val r i j v s) = s"
  by (auto simp add: set_val_def)

lemma get_set_val:
  assumes "r < length s" "0 \<le> i" "i < rows (s ! r)" "0 \<le> j" "j < cols (s ! r)"
  shows "get r i' j' (snd (set_val r i j v s)) = (if (i', j') = (i, j) then v else get r i' j' s)"
  using assms
  by (auto simp add: set_val_def get_def update_conv' delete_conv'
      map_of_eq_None_iff[THEN iffD2] image_iff split: option.splits)

lemma get_other [simp]: "p \<noteq> r \<Longrightarrow> get p i' j' (snd (set_val r i j v s)) = get p i' j' s"
  by (simp add: get_def)

lemma set_val_distinct:
  "distinct (map fst (data (s ! r))) \<Longrightarrow> distinct (map fst (data (snd (set_val r i j v s) ! r)))"
  by (cases "r < length s")
    (simp_all add: set_val_def distinct_update distinct_delete list_update_beyond)

lemma set_update_subset: "set (AList.update k v al) \<subseteq> insert (k, v) (set al)"
  by (induction al) auto

lemma set_val_data_subset:
  "set (data (snd (set_val r i j v s) ! r)) \<subseteq>
     (if 0 \<le> i \<and> i < rows (s ! r) \<and> 0 \<le> j \<and> j < cols (s ! r) \<and> v \<noteq> 0
      then insert ((i, j), v) (set (data (s ! r))) else set (data (s ! r)))"
  using set_update_subset[of "(i, j)" v "data (s ! r)"]
  by (cases "r < length s") (auto simp add: set_val_def AList.delete_eq list_update_beyond)

lemma set_val_in_bounds: "in_bounds (s ! r) \<Longrightarrow> in_bounds (snd (set_val r i j v s) ! r)"
  using set_val_data_subset[of r i j v s]
  by (auto simp add: in_bounds_def list_all_iff split: if_splits)

lemma set_val_no_zero: "no_zero (s ! r) \<Longrightarrow> no_zero (snd (set_val r i j v s) ! r)"
  using set_val_data_subset[of r i j v s]
  by (auto simp add: no_zero_def list_all_iff split: if_splits)

lemma get_outside:
  assumes "in_bounds (s ! p)" and "\<not> (0 \<le> i \<and> i < rows (s ! p) \<and> 0 \<le> j \<and> j < cols (s ! p))"
  shows "get p i j s = 0"
proof -
  have "(i, j) \<notin> fst ` set (data (s ! p))"
    using assms by (auto simp add: in_bounds_def list_all_iff)
  then have "map_of (data (s ! p)) (i, j) = None"
    by (simp add: map_of_eq_None_iff)
  then show ?thesis by (simp add: get_def)
qed

subsection \<open>Loops\<close>

lemma for_each_inv:
  assumes "I s" and "\<And>x t. x \<in> set xs \<Longrightarrow> I t \<Longrightarrow> I (snd (body x t))"
  shows "I (snd (for_each xs body s))"
  using assms
proof (induction xs arbitrary: s)
  case Nil
  then show ?case by simp
next
  case (Cons x xs)
  have "I (snd (body x s))" using Cons.prems by simp
  moreover have "\<And>t. I t \<Longrightarrow> I (snd (for_each xs body t))"
    using Cons.IH Cons.prems(2) by simp
  ultimately show ?case
    by (cases "body x s") (auto split: sum.splits)
qed

lemma for_each_ok:
  assumes "I s"
    and "\<And>x t. x \<in> set xs \<Longrightarrow> I t \<Longrightarrow> I (snd (body x t)) \<and> fst (body x t) = Inr ()"
  shows "fst (for_each xs body s) = Inr ()"
  using assms
proof (induction xs arbitrary: s)
  case Nil
  then show ?case by simp
next
  case (Cons x xs)
  have "I (snd (body x s))" "fst (body x s) = Inr ()" using Cons.prems by simp_all
  moreover have "\<And>t. I t \<Longrightarrow> fst (for_each xs body t) = Inr ()"
    using Cons.IH Cons.prems(2) by simp
  ultimately show ?case
    by (cases "body x s") (auto split: sum.splits)
qed

lemma set_calls_inv:
  assumes "I s" and "\<And>t i j v. I t \<Longrightarrow> I (snd (set_val p i j v t))"
  shows "I (set_calls p calls s)"
  using assms(1) unfolding set_calls_def
  by (induction calls arbitrary: s) (auto simp add: assms(2))

lemma for_each_outcome:
  assumes "fst (for_each xs body s) = Inl e"
    and "\<And>x t. x \<in> set xs \<Longrightarrow> fst (body x t) = Inl e \<Longrightarrow> P"
  shows P
  using assms
proof (induction xs arbitrary: s)
  case Nil
  then show ?case by simp
next
  case (Cons x xs)
  show ?case
  proof (cases "body x s")
    case (Pair out s')
    show ?thesis
    proof (cases out)
      case (Inl e')
      with Pair Cons.prems(1) have "fst (body x s) = Inl e" by simp
      then show ?thesis using Cons.prems(2) [of x s] by simp
    next
      case (Inr u)
      with Pair Cons.prems(1) have "fst (for_each xs body s') = Inl e" by simp
      then show ?thesis
        by (rule Cons.IH) (rule Cons.prems(2), simp_all)
    qed
  qed
qed

lemma set_val_raises: "fst (set_val r i j v s) = Inl e \<Longrightarrow> e = IndexOutOfBounds"
  by (simp add: set_val_fst IndexOutOfBounds_def split: if_splits)

lemma add_raises:
  assumes "fst (add a b s) = Inl e"
  shows "check_dimensions a b ''add'' s = Inl e \<or>
         (check_dimensions a b ''add'' s = Inr () \<and> e = IndexOutOfBounds)"
proof (cases "check_dimensions a b ''add'' s")
  case (Inl e')
  with assms show ?thesis by (simp add: add_def)
next
  case (Inr u)
  obtain r s1 where init: "SparseMatrix_init (rows (s ! a)) (cols (s ! a)) s = (r, s1)"
    by (cases "SparseMatrix_init (rows (s ! a)) (cols (s ! a)) s")
  obtain o2 s2 where l1: "for_each (items a s1) (\<lambda>((i, j), val). set_val r i j val) s1 = (o2, s2)"
    by (cases "for_each (items a s1) (\<lambda>((i, j), val). set_val r i j val) s1")
  obtain o3 s3 where l2: "for_each (items b s2)
      (\<lambda>((i, j), val) t. set_val r i j (get r i j t + val) t) s2 = (o3, s3)"
    by (cases "for_each (items b s2) (\<lambda>((i, j), val) t. set_val r i j (get r i j t + val) t) s2")
  from assms Inr init l1 l2 have "o2 = Inl e \<or> o3 = Inl e"
    by (auto simp add: add_def split: sum.splits)
  then have "e = IndexOutOfBounds"
  proof
    assume "o2 = Inl e"
    with l1 have "fst (for_each (items a s1) (\<lambda>((i, j), val). set_val r i j val) s1) = Inl e"
      by simp
    then show ?thesis
      by (rule for_each_outcome) (auto dest: set_val_raises)
  next
    assume "o3 = Inl e"
    with l2 have "fst (for_each (items b s2)
        (\<lambda>((i, j), val) t. set_val r i j (get r i j t + val) t) s2) = Inl e"
      by simp
    then show ?thesis
      by (rule for_each_outcome) (auto dest: set_val_raises)
  qed
  with Inr show ?thesis by simp
qed

lemma subtract_raises:
  assumes "fst (subtract a b s) = Inl e"
  shows "check_dimensions a b ''subtract'' s = Inl e \<or>
         (check_dimensions a b ''subtract'' s = Inr () \<and> e = IndexOutOfBounds)"
proof (cases "check_dimensions a b ''subtract'' s")
  case (Inl e')
  with assms show ?thesis by (simp add: subtract_def)
next
  case (Inr u)
  obtain r s1 where init: "SparseMatrix_init (rows (s ! a)) (cols (s ! a)) s = (r, s1)"
    by (cases "SparseMatrix_init (rows (s ! a)) (cols (s ! a)) s")
  obtain o2 s2 where l1: "for_each (items a s1) (\<lambda>((i, j), val). set_val r i j val) s1 = (o2, s2)"
    by (cases "for_each (items a s1) (\<lambda>((i, j), val). set_val r i j val) s1")
  obtain o3 s3 where l2: "for_each (items b s2)
      (\<lambda>((i, j), val) t. set_val r i j (get r i j t - val) t) s2 = (o3, s3)"
    by (cases "for_each (items b s2) (\<lambda>((i, j), val) t. set_val r i j (get r i j t - val) t) s2")
  from assms Inr init l1 l2 have "o2 = Inl e \<or> o3 = Inl e"
    by (auto simp add: subtract_def split: sum.splits)
  then have "e = IndexOutOfBounds"
  proof
    assume "o2 = Inl e"
    with l1 have "fst (for_each (items a s1) (\<lambda>((i, j), val). set_val r i j val) s1) = Inl e"
      by simp
    then show ?thesis
      by (rule for_each_outcome) (auto dest: set_val_raises)
  next
    assume "o3 = Inl e"
    with l2 have "fst (for_each (items b s2)
        (\<lambda>((i, j), val) t. set_val r i j (get r i j t - val) t) s2) = Inl e"
      by simp
    then show ?thesis
      by (rule for_each_outcome) (auto dest: set_val_raises)
  qed
  with Inr show ?thesis by simp
qed

lemma multiply_raises:
  assumes "fst (multiply a b s) = Inl e"
  shows "check_dimensions a b ''multiply'' s = Inl e \<or>
         (check_dimensions a b ''multiply'' s = Inr () \<and> e = IndexOutOfBounds)"
proof (cases "check_dimensions a b ''multiply'' s")
  case (Inl e')
  with assms show ?thesis by (simp add: multiply_def)
next
  case (Inr u)
  obtain r s1 where init: "SparseMatrix_init (rows (s ! a)) (cols (s ! b)) s = (r, s1)"
    by (cases "SparseMatrix_init (rows (s ! a)) (cols (s ! b)) s")
  define bc where "bc = foldl b_cols_step [] (items b s1)"
  define body where "body = (\<lambda>((i, k), val_a) t.
     (case map_of bc k of
        None \<Rightarrow> (Inr (), t)
      | Some row_k \<Rightarrow>
          for_each row_k
            (\<lambda>(j, val_b) u. set_val r i j (get r i j u + val_a * val_b) u) t))"
  have inner: "e' = IndexOutOfBounds" if "fst (body x t) = Inl e'" for x t e'
  proof -
    obtain i k val_a where fields: "x = ((i, k), val_a)"
      by (cases x) auto
    show ?thesis
    proof (cases "map_of bc k")
      case None
      with that fields show ?thesis by (simp add: body_def)
    next
      case (Some row_k)
      with that fields have "fst (for_each row_k
        (\<lambda>(j, val_b) u. set_val r i j (get r i j u + val_a * val_b) u) t) = Inl e'"
        by (simp add: body_def)
      then show ?thesis
        by (rule for_each_outcome) (auto dest: set_val_raises)
    qed
  qed
  from assms Inr init have "fst (for_each (items a s1) body s1) = Inl e"
    by (auto simp add: multiply_def Let_def bc_def body_def split: sum.splits prod.splits)
  then have "e = IndexOutOfBounds"
    by (rule for_each_outcome) (rule inner)
  with Inr show ?thesis by simp
qed

subsection \<open>What the operations leave alone\<close>

lemma for_each_frame:
  assumes "\<And>x t. x \<in> set xs \<Longrightarrow>
    length (snd (body x t)) = length t \<and> take n (snd (body x t)) = take n t"
  shows "length (snd (for_each xs body s)) = length s \<and>
         take n (snd (for_each xs body s)) = take n s"
  by (rule for_each_inv [where I = "\<lambda>t. length t = length s \<and> take n t = take n s"])
    (simp_all add: assms)

lemma add_frame:
  "take (length s) (snd (add a b s)) = s \<and>
   (\<forall>r. fst (add a b s) = Inr r \<longrightarrow>
      r = length s \<and> length (snd (add a b s)) = Suc (length s))"
proof (cases "check_dimensions a b ''add'' s")
  case (Inl e)
  then show ?thesis by (simp add: add_def)
next
  case (Inr u)
  define r where "r = length s"
  define s1 where "s1 = s @ [\<lparr>rows = rows (s ! a), cols = cols (s ! a), data = []\<rparr>]"
  have init: "SparseMatrix_init (rows (s ! a)) (cols (s ! a)) s = (r, s1)"
    by (simp add: SparseMatrix_init_def r_def s1_def)
  obtain o2 s2 where l1: "for_each (items a s1) (\<lambda>((i, j), val). set_val r i j val) s1 = (o2, s2)"
    by (cases "for_each (items a s1) (\<lambda>((i, j), val). set_val r i j val) s1")
  obtain o3 s3 where l2: "for_each (items b s2)
      (\<lambda>((i, j), val) t. set_val r i j (get r i j t + val) t) s2 = (o3, s3)"
    by (cases "for_each (items b s2) (\<lambda>((i, j), val) t. set_val r i j (get r i j t + val) t) s2")
  have "length (snd (for_each (items a s1) (\<lambda>((i, j), val). set_val r i j val) s1)) = length s1 \<and>
      take r (snd (for_each (items a s1) (\<lambda>((i, j), val). set_val r i j val) s1)) = take r s1"
    by (rule for_each_frame) auto
  then have "length s2 = length s1 \<and> take r s2 = take r s1"
    unfolding l1 by simp
  then have f1: "length s2 = Suc (length s)" "take r s2 = s"
    by (simp_all add: s1_def r_def)
  have "length (snd (for_each (items b s2)
          (\<lambda>((i, j), val) t. set_val r i j (get r i j t + val) t) s2)) = length s2 \<and>
      take r (snd (for_each (items b s2)
          (\<lambda>((i, j), val) t. set_val r i j (get r i j t + val) t) s2)) = take r s2"
    by (rule for_each_frame) auto
  then have "length s3 = length s2 \<and> take r s3 = take r s2"
    unfolding l2 by simp
  then have f2: "length s3 = Suc (length s)" "take r s3 = s"
    by (simp_all add: f1)
  have "add a b s =
      (case o2 of Inl e \<Rightarrow> (Inl e, s2)
       | Inr _ \<Rightarrow> (case o3 of Inl e \<Rightarrow> (Inl e, s3) | Inr _ \<Rightarrow> (Inr r, s3)))"
    using Inr by (simp add: add_def init l1 l2 split: sum.splits)
  then show ?thesis
    using f1 f2 by (auto simp add: r_def split: sum.splits)
qed

lemma subtract_frame:
  "take (length s) (snd (subtract a b s)) = s \<and>
   (\<forall>r. fst (subtract a b s) = Inr r \<longrightarrow>
      r = length s \<and> length (snd (subtract a b s)) = Suc (length s))"
proof (cases "check_dimensions a b ''subtract'' s")
  case (Inl e)
  then show ?thesis by (simp add: subtract_def)
next
  case (Inr u)
  define r where "r = length s"
  define s1 where "s1 = s @ [\<lparr>rows = rows (s ! a), cols = cols (s ! a), data = []\<rparr>]"
  have init: "SparseMatrix_init (rows (s ! a)) (cols (s ! a)) s = (r, s1)"
    by (simp add: SparseMatrix_init_def r_def s1_def)
  obtain o2 s2 where l1: "for_each (items a s1) (\<lambda>((i, j), val). set_val r i j val) s1 = (o2, s2)"
    by (cases "for_each (items a s1) (\<lambda>((i, j), val). set_val r i j val) s1")
  obtain o3 s3 where l2: "for_each (items b s2)
      (\<lambda>((i, j), val) t. set_val r i j (get r i j t - val) t) s2 = (o3, s3)"
    by (cases "for_each (items b s2) (\<lambda>((i, j), val) t. set_val r i j (get r i j t - val) t) s2")
  have "length (snd (for_each (items a s1) (\<lambda>((i, j), val). set_val r i j val) s1)) = length s1 \<and>
      take r (snd (for_each (items a s1) (\<lambda>((i, j), val). set_val r i j val) s1)) = take r s1"
    by (rule for_each_frame) auto
  then have "length s2 = length s1 \<and> take r s2 = take r s1"
    unfolding l1 by simp
  then have f1: "length s2 = Suc (length s)" "take r s2 = s"
    by (simp_all add: s1_def r_def)
  have "length (snd (for_each (items b s2)
          (\<lambda>((i, j), val) t. set_val r i j (get r i j t - val) t) s2)) = length s2 \<and>
      take r (snd (for_each (items b s2)
          (\<lambda>((i, j), val) t. set_val r i j (get r i j t - val) t) s2)) = take r s2"
    by (rule for_each_frame) auto
  then have "length s3 = length s2 \<and> take r s3 = take r s2"
    unfolding l2 by simp
  then have f2: "length s3 = Suc (length s)" "take r s3 = s"
    by (simp_all add: f1)
  have "subtract a b s =
      (case o2 of Inl e \<Rightarrow> (Inl e, s2)
       | Inr _ \<Rightarrow> (case o3 of Inl e \<Rightarrow> (Inl e, s3) | Inr _ \<Rightarrow> (Inr r, s3)))"
    using Inr by (simp add: subtract_def init l1 l2 split: sum.splits)
  then show ?thesis
    using f1 f2 by (auto simp add: r_def split: sum.splits)
qed

lemma multiply_frame:
  "take (length s) (snd (multiply a b s)) = s \<and>
   (\<forall>r. fst (multiply a b s) = Inr r \<longrightarrow>
      r = length s \<and> length (snd (multiply a b s)) = Suc (length s))"
proof (cases "check_dimensions a b ''multiply'' s")
  case (Inl e)
  then show ?thesis by (simp add: multiply_def)
next
  case (Inr u)
  define r where "r = length s"
  define s1 where "s1 = s @ [\<lparr>rows = rows (s ! a), cols = cols (s ! b), data = []\<rparr>]"
  have init: "SparseMatrix_init (rows (s ! a)) (cols (s ! b)) s = (r, s1)"
    by (simp add: SparseMatrix_init_def r_def s1_def)
  define bc where "bc = foldl b_cols_step [] (items b s1)"
  define body where "body = (\<lambda>((i, k), val_a) t.
     (case map_of bc k of
        None \<Rightarrow> (Inr (), t)
      | Some row_k \<Rightarrow>
          for_each row_k
            (\<lambda>(j, val_b) u. set_val r i j (get r i j u + val_a * val_b) u) t))"
  obtain o2 s2 where l1: "for_each (items a s1) body s1 = (o2, s2)"
    by (cases "for_each (items a s1) body s1")
  have inner: "length (snd (body x t)) = length t \<and> take r (snd (body x t)) = take r t" for x t
  proof -
    obtain i k val_a where fields: "x = ((i, k), val_a)"
      by (cases x) auto
    show ?thesis
    proof (cases "map_of bc k")
      case None
      then show ?thesis by (simp add: body_def fields)
    next
      case (Some row_k)
      have "length (snd (for_each row_k
                (\<lambda>(j, val_b) u. set_val r i j (get r i j u + val_a * val_b) u) t)) = length t \<and>
            take r (snd (for_each row_k
                (\<lambda>(j, val_b) u. set_val r i j (get r i j u + val_a * val_b) u) t)) = take r t"
        by (rule for_each_frame) auto
      then show ?thesis by (simp add: body_def fields Some)
    qed
  qed
  have "length (snd (for_each (items a s1) body s1)) = length s1 \<and>
      take r (snd (for_each (items a s1) body s1)) = take r s1"
    by (rule for_each_frame) (rule inner)
  then have "length s2 = length s1 \<and> take r s2 = take r s1"
    unfolding l1 by simp
  then have f1: "length s2 = Suc (length s)" "take r s2 = s"
    by (simp_all add: s1_def r_def)
  have "multiply a b s = (case o2 of Inl e \<Rightarrow> (Inl e, s2) | Inr _ \<Rightarrow> (Inr r, s2))"
    using Inr l1
    by (simp add: multiply_def init body_def bc_def Let_def split: sum.splits)
  then show ?thesis
    using f1 by (auto simp add: r_def split: sum.splits)
qed

subsection \<open>Loops that write into the result\<close>

lemma for_each_Cons_ok:
  "fst (body x s) = Inr () \<Longrightarrow> for_each (x # xs) body s = for_each xs body (snd (body x s))"
  by (cases "body x s") auto

lemma for_each_map: "for_each (map g xs) body s = for_each xs (\<lambda>x. body (g x)) s"
  by (induction xs arbitrary: s) (auto split: prod.splits sum.splits)

lemma write_loop:
  fixes f :: "'v::zero \<Rightarrow> 'v \<Rightarrow> 'v"
  assumes "r < length s" and "distinct (map fst xs)"
    and "\<forall>((i, j), v) \<in> set xs. 0 \<le> i \<and> i < rows (s ! r) \<and> 0 \<le> j \<and> j < cols (s ! r)"
  shows "fst (for_each xs (\<lambda>((i, j), val) t. set_val r i j (f (get r i j t) val) t) s) = Inr () \<and>
         (\<forall>i j. get r i j
                  (snd (for_each xs (\<lambda>((i, j), val) t. set_val r i j (f (get r i j t) val) t) s)) =
                (case map_of xs (i, j) of None \<Rightarrow> get r i j s | Some v \<Rightarrow> f (get r i j s) v))"
  using assms
proof (induction xs arbitrary: s)
  case Nil
  then show ?case by simp
next
  case (Cons x xs)
  let ?body = "\<lambda>((i, j), val) t. set_val r i j (f (get r i j t) val) t"
  obtain i j v where x: "x = ((i, j), v)" by (cases x) auto
  have inb: "0 \<le> i" "i < rows (s ! r)" "0 \<le> j" "j < cols (s ! r)"
    using Cons.prems(3) by (simp_all add: x)
  define s' where "s' = snd (set_val r i j (f (get r i j s) v) s)"
  have ok: "fst (?body x s) = Inr ()"
    using inb by (simp add: x set_val_fst)
  have step: "for_each (x # xs) ?body s = for_each xs ?body s'"
    unfolding s'_def
    using for_each_Cons_ok [of ?body x s xs] ok by (simp add: x)
  have get': "get r i' j' s' = (if (i', j') = (i, j) then f (get r i j s) v else get r i' j' s)"
    for i' j'
    unfolding s'_def using Cons.prems(1) inb by (rule get_set_val)
  have fresh: "map_of xs (i, j) = None"
    using Cons.prems(2) by (simp add: x map_of_eq_None_iff)
  have IH: "fst (for_each xs ?body s') = Inr () \<and>
      (\<forall>i j. get r i j (snd (for_each xs ?body s')) =
         (case map_of xs (i, j) of None \<Rightarrow> get r i j s' | Some v \<Rightarrow> f (get r i j s') v))"
  proof (rule Cons.IH)
    show "r < length s'" using Cons.prems(1) by (simp add: s'_def)
    show "distinct (map fst xs)" using Cons.prems(2) by simp
    show "\<forall>((i, j), v) \<in> set xs. 0 \<le> i \<and> i < rows (s' ! r) \<and> 0 \<le> j \<and> j < cols (s' ! r)"
      using Cons.prems(3) by (simp add: s'_def)
  qed
  show ?case
    unfolding step using IH fresh
    by (auto simp add: x get' split: option.splits)
qed

lemma write_loop_shape:
  "length (snd (for_each xs (\<lambda>((i, j), val) t. set_val r i j (g i j val t) t) s)) = length s \<and>
   rows (snd (for_each xs (\<lambda>((i, j), val) t. set_val r i j (g i j val t) t) s) ! r) = rows (s ! r) \<and>
   cols (snd (for_each xs (\<lambda>((i, j), val) t. set_val r i j (g i j val t) t) s) ! r) = cols (s ! r) \<and>
   (\<forall>p. p \<noteq> r \<longrightarrow>
      snd (for_each xs (\<lambda>((i, j), val) t. set_val r i j (g i j val t) t) s) ! p = s ! p) \<and>
   (no_zero (s ! r) \<longrightarrow>
      no_zero (snd (for_each xs (\<lambda>((i, j), val) t. set_val r i j (g i j val t) t) s) ! r))"
  by (rule for_each_inv
      [where I = "\<lambda>t. length t = length s \<and> rows (t ! r) = rows (s ! r) \<and>
        cols (t ! r) = cols (s ! r) \<and> (\<forall>p. p \<noteq> r \<longrightarrow> t ! p = s ! p) \<and>
        (no_zero (s ! r) \<longrightarrow> no_zero (t ! r))"])
    (auto simp add: set_val_no_zero)

lemma get_eq_map_of:
  "get p i j s = (case map_of (data (s ! p)) (i, j) of None \<Rightarrow> 0 | Some v \<Rightarrow> v)"
  by (simp add: get_def)

lemma in_bounds_keys:
  "in_bounds m \<Longrightarrow> \<forall>((i, j), v) \<in> set (data m). 0 \<le> i \<and> i < rows m \<and> 0 \<le> j \<and> j < cols m"
  by (simp add: in_bounds_def list_all_iff)


subsection \<open>The two loops of add and subtract\<close>

lemma update_absent: "k \<notin> fst ` set al \<Longrightarrow> AList.update k v al = al @ [(k, v)]"
  by (induction al) auto

lemma map_of_filter_values:
  "distinct (map fst xs) \<Longrightarrow>
   map_of (filter (\<lambda>(k, v). P v) xs) k =
     (case map_of xs k of None \<Rightarrow> None | Some v \<Rightarrow> if P v then Some v else None)"
proof (induction xs)
  case Nil
  then show ?case by simp
next
  case (Cons x xs)
  obtain k' v' where x: "x = (k', v')" by (cases x)
  have "k' \<notin> fst ` set xs" using Cons.prems by (simp add: x)
  then have none: "map_of xs k' = None" by (simp add: map_of_eq_None_iff)
  have "k' \<notin> fst ` set (filter (\<lambda>(k, v). P v) xs)"
    using \<open>k' \<notin> fst ` set xs\<close> by auto
  then have "map_of (filter (\<lambda>(k, v). P v) xs) k' = None"
    by (rule iffD2 [OF map_of_eq_None_iff])
  then show ?case
    using Cons.IH Cons.prems none by (auto simp add: x)
qed

lemma copy_loop:
  fixes s :: "'v::zero store"
  assumes "r < length s" and "distinct (map fst xs)"
    and "fst ` set xs \<inter> fst ` set (data (s ! r)) = {}"
    and "\<forall>((i, j), v) \<in> set xs. 0 \<le> i \<and> i < rows (s ! r) \<and> 0 \<le> j \<and> j < cols (s ! r)"
  shows "for_each xs (\<lambda>((i, j), val). set_val r i j val) s =
         (Inr (), s[r := (s ! r)\<lparr>data := data (s ! r) @ filter (\<lambda>(k, v). v \<noteq> 0) xs\<rparr>])"
  using assms
proof (induction xs arbitrary: s)
  case Nil
  then show ?case by simp
next
  case (Cons x xs)
  let ?body = "\<lambda>((i, j), val). set_val r i j val"
  obtain i j v where x: "x = ((i, j), v)" by (cases x) auto
  have inb: "0 \<le> i" "i < rows (s ! r)" "0 \<le> j" "j < cols (s ! r)"
    using Cons.prems(4) by (simp_all add: x)
  have absent: "(i, j) \<notin> fst ` set (data (s ! r))"
    using Cons.prems(3) by (auto simp add: x)
  define s' where "s' = s[r := (s ! r)\<lparr>data := data (s ! r) @ (if v \<noteq> 0 then [((i, j), v)] else [])\<rparr>]"
  have first: "set_val r i j v s = (Inr (), s')"
    using inb absent Cons.prems(1)
    by (auto simp add: set_val_def s'_def update_absent list_update_same_conv)
  have obj: "s' ! r = (s ! r)\<lparr>data := data (s ! r) @ (if v \<noteq> 0 then [((i, j), v)] else [])\<rparr>"
    using Cons.prems(1) by (simp add: s'_def)
  have "for_each xs ?body s' =
      (Inr (), s'[r := (s' ! r)\<lparr>data := data (s' ! r) @ filter (\<lambda>(k, v). v \<noteq> 0) xs\<rparr>])"
  proof (rule Cons.IH)
    show "r < length s'" using Cons.prems(1) by (simp add: s'_def)
    show "distinct (map fst xs)" using Cons.prems(2) by simp
    have "(i, j) \<notin> fst ` set xs" using Cons.prems(2) by (simp add: x)
    moreover have "fst ` set xs \<inter> fst ` set (data (s ! r)) = {}"
      using Cons.prems(3) by auto
    ultimately show "fst ` set xs \<inter> fst ` set (data (s' ! r)) = {}"
      by (force simp add: obj)
    show "\<forall>((i, j), v) \<in> set xs. 0 \<le> i \<and> i < rows (s' ! r) \<and> 0 \<le> j \<and> j < cols (s' ! r)"
      using Cons.prems(4) by (simp add: obj)
  qed
  then show ?case
    by (simp add: x first obj) (simp add: s'_def)
qed

lemma copy_phase:
  fixes s :: "'v::zero store"
  assumes "a < length s" and "well_formed (s ! a)"
  shows "for_each (items a (s @ [\<lparr>rows = rows (s ! a), cols = cols (s ! a), data = []\<rparr>]))
           (\<lambda>((i, j), val). set_val (length s) i j val)
           (s @ [\<lparr>rows = rows (s ! a), cols = cols (s ! a), data = []\<rparr>]) =
         (Inr (), s @ [\<lparr>rows = rows (s ! a), cols = cols (s ! a),
                         data = filter (\<lambda>(k, v). v \<noteq> 0) (items a s)\<rparr>])"
proof -
  let ?s1 = "s @ [\<lparr>rows = rows (s ! a), cols = cols (s ! a), data = []\<rparr>]"
  have items: "items a ?s1 = data (s ! a)"
    using assms(1) by (simp add: items_def nth_append)
  have "for_each (data (s ! a)) (\<lambda>((i, j), val). set_val (length s) i j val) ?s1 =
      (Inr (), ?s1[length s := (?s1 ! length s)
         \<lparr>data := data (?s1 ! length s) @ filter (\<lambda>(k, v). v \<noteq> 0) (data (s ! a))\<rparr>])"
  proof (rule copy_loop)
    show "length s < length ?s1" by simp
    show "distinct (map fst (data (s ! a)))"
      using assms(2) by (simp add: well_formed_def)
    show "fst ` set (data (s ! a)) \<inter> fst ` set (data (?s1 ! length s)) = {}" by simp
    show "\<forall>((i, j), v) \<in> set (data (s ! a)).
        0 \<le> i \<and> i < rows (?s1 ! length s) \<and> 0 \<le> j \<and> j < cols (?s1 ! length s)"
      using in_bounds_keys [of "s ! a"] assms(2) by (simp add: well_formed_def)
  qed
  then show ?thesis
    unfolding items by (simp add: items_def)
qed

lemma get_after_copy:
  fixes s :: "'v::zero store"
  assumes "a < length s" and "well_formed (s ! a)"
  shows "get (length s) i j
           (s @ [\<lparr>rows = R, cols = C, data = filter (\<lambda>(k, v). v \<noteq> 0) (items a s)\<rparr>]) =
         get a i j s"
proof -
  have "distinct (map fst (data (s ! a)))"
    using assms(2) by (simp add: well_formed_def)
  then show ?thesis
    by (simp add: get_def items_def map_of_filter_values split: option.splits)
qed

lemma second_phase:
  fixes s :: "'v::zero store" and f :: "'v \<Rightarrow> 'v \<Rightarrow> 'v"
  assumes "a < length s" and "b < length s"
    and "well_formed (s ! a)" and "well_formed (s ! b)"
    and "rows (s ! a) = rows (s ! b)" and "cols (s ! a) = cols (s ! b)"
  defines "s2 \<equiv> s @ [\<lparr>rows = rows (s ! a), cols = cols (s ! a),
                       data = filter (\<lambda>(k, v). v \<noteq> 0) (items a s)\<rparr>]"
  defines "l2 \<equiv> for_each (items b s2)
                  (\<lambda>((i, j), val) t. set_val (length s) i j (f (get (length s) i j t) val) t) s2"
  shows "fst l2 = Inr () \<and> length (snd l2) = Suc (length s) \<and>
         rows (snd l2 ! length s) = rows (s ! a) \<and> cols (snd l2 ! length s) = cols (s ! a) \<and>
         no_zero (snd l2 ! length s) \<and>
         (\<forall>i j. get (length s) i j (snd l2) =
            (case map_of (data (s ! b)) (i, j) of
               None \<Rightarrow> get a i j s | Some v \<Rightarrow> f (get a i j s) v))"
proof -
  have items: "items b s2 = data (s ! b)"
    using assms(2) by (simp add: items_def s2_def nth_append)
  have obj: "s2 ! length s = \<lparr>rows = rows (s ! a), cols = cols (s ! a),
      data = filter (\<lambda>(k, v). v \<noteq> 0) (items a s)\<rparr>"
    by (simp add: s2_def)
  have nz: "no_zero (s2 ! length s)"
    by (simp add: obj no_zero_def list_all_iff)
  have get2: "get (length s) i j s2 = get a i j s" for i j
    unfolding s2_def using assms(1,3) by (rule get_after_copy)
  have "fst l2 = Inr () \<and>
      (\<forall>i j. get (length s) i j (snd l2) =
         (case map_of (data (s ! b)) (i, j) of
            None \<Rightarrow> get (length s) i j s2 | Some v \<Rightarrow> f (get (length s) i j s2) v))"
    unfolding l2_def items
  proof (rule write_loop)
    show "length s < length s2" by (simp add: s2_def)
    show "distinct (map fst (data (s ! b)))"
      using assms(4) by (simp add: well_formed_def)
    show "\<forall>((i, j), v) \<in> set (data (s ! b)).
        0 \<le> i \<and> i < rows (s2 ! length s) \<and> 0 \<le> j \<and> j < cols (s2 ! length s)"
      using in_bounds_keys [of "s ! b"] assms(4,5,6) by (simp add: well_formed_def obj)
  qed
  moreover have "length (snd l2) = length s2 \<and>
      rows (snd l2 ! length s) = rows (s2 ! length s) \<and>
      cols (snd l2 ! length s) = cols (s2 ! length s) \<and>
      (\<forall>p. p \<noteq> length s \<longrightarrow> snd l2 ! p = s2 ! p) \<and>
      (no_zero (s2 ! length s) \<longrightarrow> no_zero (snd l2 ! length s))"
    unfolding l2_def
    by (rule write_loop_shape [where g = "\<lambda>i j val t. f (get (length s) i j t) val"])
  moreover have "length s2 = Suc (length s)" by (simp add: s2_def)
  ultimately show ?thesis
    using nz by (simp add: get2 obj cong: option.case_cong)
qed

subsection \<open>The row index of multiply\<close>

lemma b_cols_step_lookup:
  "(case map_of (b_cols_step bc ((row, col), val)) k of
      None \<Rightarrow> None | Some d \<Rightarrow> map_of d j) =
   (if (k, j) = (row, col) then Some val
    else (case map_of bc k of None \<Rightarrow> None | Some d \<Rightarrow> map_of d j))"
proof -
  define bc1 where "bc1 = (if row \<notin> set (map fst bc) then AList.update row [] bc else bc)"
  have bc1: "map_of bc1 k' =
      (if k' = row then Some (case map_of bc row of None \<Rightarrow> [] | Some d \<Rightarrow> d) else map_of bc k')"
    for k'
  proof (cases "row \<in> set (map fst bc)")
    case True
    then have "map_of bc row \<noteq> None"
      by (simp add: map_of_eq_None_iff)
    with True show ?thesis by (auto simp add: bc1_def)
  next
    case False
    then have "map_of bc row = None"
      by (simp add: map_of_eq_None_iff)
    with False show ?thesis by (simp add: bc1_def update_conv')
  qed
  have "b_cols_step bc ((row, col), val) = AList.map_entry row (AList.update col val) bc1"
    by (simp add: b_cols_step_def bc1_def Let_def)
  then show ?thesis
    by (auto simp add: map_of_map_entry bc1 update_conv' split: option.splits)
qed

lemma b_cols_lookup:
  assumes "distinct (map fst xs)"
  shows "(case map_of (foldl b_cols_step bc xs) k of
            None \<Rightarrow> None | Some d \<Rightarrow> map_of d j) =
         (case map_of xs (k, j) of
            Some v \<Rightarrow> Some v
          | None \<Rightarrow> (case map_of bc k of None \<Rightarrow> None | Some d \<Rightarrow> map_of d j))"
  using assms
proof (induction xs arbitrary: bc)
  case Nil
  then show ?case by simp
next
  case (Cons x xs)
  obtain row col val where x: "x = ((row, col), val)" by (cases x) auto
  have "(row, col) \<notin> fst ` set xs" using Cons.prems by (simp add: x)
  then have fresh: "map_of xs (row, col) = None" by (simp add: map_of_eq_None_iff)
  have "(case map_of (foldl b_cols_step (b_cols_step bc x) xs) k of
            None \<Rightarrow> None | Some d \<Rightarrow> map_of d j) =
         (case map_of xs (k, j) of
            Some v \<Rightarrow> Some v
          | None \<Rightarrow> (case map_of (b_cols_step bc x) k of None \<Rightarrow> None | Some d \<Rightarrow> map_of d j))"
    using Cons.prems by (intro Cons.IH) simp
  then show ?case
    using fresh by (auto simp add: x b_cols_step_lookup split: option.splits)
qed

lemma update_values:
  "\<forall>(k, d) \<in> set al. P d \<Longrightarrow> P v \<Longrightarrow> \<forall>(k, d) \<in> set (AList.update k0 v al). P d"
  by (induction al) auto

lemma map_entry_values:
  "\<forall>(k, d) \<in> set al. P d \<Longrightarrow> (\<And>d. P d \<Longrightarrow> P (f d)) \<Longrightarrow>
   \<forall>(k, d) \<in> set (AList.map_entry k0 f al). P d"
  by (induction al) auto

lemma b_cols_step_rows_distinct:
  assumes "\<forall>(k, d) \<in> set bc. distinct (map fst d)"
  shows "\<forall>(k, d) \<in> set (b_cols_step bc x). distinct (map fst d)"
proof -
  obtain row col val where x: "x = ((row, col), val)" by (cases x) auto
  define bc1 where "bc1 = (if row \<notin> set (map fst bc) then AList.update row [] bc else bc)"
  have "\<forall>(k, d) \<in> set (AList.update row [] bc). distinct (map fst d)"
    using assms by (rule update_values) simp
  then have "\<forall>(k, d) \<in> set bc1. distinct (map fst d)"
    using assms by (simp add: bc1_def)
  then have "\<forall>(k, d) \<in> set (AList.map_entry row (AList.update col val) bc1).
      distinct (map fst d)"
    by (rule map_entry_values) (rule distinct_update)
  then show ?thesis
    by (simp add: b_cols_step_def x bc1_def Let_def)
qed

lemma b_cols_rows_distinct:
  assumes "\<forall>(k, d) \<in> set bc. distinct (map fst d)"
  shows "\<forall>(k, d) \<in> set (foldl b_cols_step bc xs). distinct (map fst d)"
  using assms
proof (induction xs arbitrary: bc)
  case Nil
  then show ?case by simp
next
  case (Cons x xs)
  have "\<forall>(k, d) \<in> set (b_cols_step bc x). distinct (map fst d)"
    using Cons.prems by (rule b_cols_step_rows_distinct)
  then have "\<forall>(k, d) \<in> set (foldl b_cols_step (b_cols_step bc x) xs). distinct (map fst d)"
    by (rule Cons.IH)
  then show ?case by simp
qed

lemma b_cols_row:
  assumes "distinct (map fst xs)" and "map_of (foldl b_cols_step [] xs) k = Some d"
  shows "distinct (map fst d) \<and> (\<forall>j. map_of d j = map_of xs (k, j))"
proof -
  have "(k, d) \<in> set (foldl b_cols_step [] xs)"
    using assms(2) by (rule map_of_SomeD)
  moreover have "\<forall>(k, d) \<in> set (foldl b_cols_step [] xs). distinct (map fst d)"
    by (rule b_cols_rows_distinct) simp
  ultimately have "distinct (map fst d)" by auto
  moreover have "map_of d j = map_of xs (k, j)" for j
    using b_cols_lookup [OF assms(1), where bc = "[]" and k = k and j = j] assms(2)
    by (simp split: option.splits)
  ultimately show ?thesis by simp
qed

lemma b_cols_no_row:
  assumes "distinct (map fst xs)" and "map_of (foldl b_cols_step [] xs) k = None"
  shows "map_of xs (k, j) = None"
  using b_cols_lookup [OF assms(1), where bc = "[]" and k = k and j = j] assms(2)
  by (simp split: option.splits)

subsection \<open>The loops of multiply\<close>

lemma map_of_row_keys:
  "map_of (map (\<lambda>(j, vb). ((i, j), vb)) d) (i', j') = (if i' = i then map_of d j' else None)"
  by (induction d) auto

lemma inner_loop:
  fixes t :: "'v::semiring_0 store"
  assumes "r < length t" and "distinct (map fst d)"
    and "0 \<le> i" and "i < rows (t ! r)"
    and "\<forall>(j, vb) \<in> set d. 0 \<le> j \<and> j < cols (t ! r)"
  shows "fst (for_each d (\<lambda>(j, val_b) u. set_val r i j (get r i j u + val_a * val_b) u) t) = Inr () \<and>
         (\<forall>i' j'. get r i' j'
              (snd (for_each d (\<lambda>(j, val_b) u. set_val r i j (get r i j u + val_a * val_b) u) t)) =
            get r i' j' t +
              (if i' = i then val_a * (case map_of d j' of None \<Rightarrow> 0 | Some vb \<Rightarrow> vb) else 0))"
proof -
  let ?g = "\<lambda>(j, vb). ((i, j), vb)"
  let ?body = "\<lambda>((i, j), val) u. set_val r i j (get r i j u + val_a * val) u"
  have same: "for_each d (\<lambda>(j, val_b) u. set_val r i j (get r i j u + val_a * val_b) u) t =
      for_each (map ?g d) ?body t"
    unfolding for_each_map by (simp add: case_prod_unfold)
  have keys: "map fst (map ?g d) = map (\<lambda>j. (i, j)) (map fst d)"
    by (simp add: case_prod_unfold)
  have "fst (for_each (map ?g d) ?body t) = Inr () \<and>
      (\<forall>i' j'. get r i' j' (snd (for_each (map ?g d) ?body t)) =
         (case map_of (map ?g d) (i', j') of
            None \<Rightarrow> get r i' j' t | Some v \<Rightarrow> get r i' j' t + val_a * v))"
  proof (rule write_loop [where f = "\<lambda>old v. old + val_a * v"])
    show "r < length t" by (rule assms(1))
    show "distinct (map fst (map ?g d))"
      unfolding keys using assms(2) by (simp add: distinct_map inj_on_def)
    show "\<forall>((i, j), v) \<in> set (map ?g d).
        0 \<le> i \<and> i < rows (t ! r) \<and> 0 \<le> j \<and> j < cols (t ! r)"
      using assms(3,4,5) by auto
  qed
  then show ?thesis
    unfolding same by (simp add: map_of_row_keys split: option.splits)
qed

lemma inner_loop_shape:
  "length (snd (for_each d (\<lambda>(j, val_b) u. set_val r i j (g j val_b u) u) t)) = length t \<and>
   rows (snd (for_each d (\<lambda>(j, val_b) u. set_val r i j (g j val_b u) u) t) ! r) = rows (t ! r) \<and>
   cols (snd (for_each d (\<lambda>(j, val_b) u. set_val r i j (g j val_b u) u) t) ! r) = cols (t ! r)"
  by (rule for_each_inv
      [where I = "\<lambda>u. length u = length t \<and> rows (u ! r) = rows (t ! r) \<and>
        cols (u ! r) = cols (t ! r)"])
    auto

lemma accumulate_loop:
  fixes G :: "'s \<Rightarrow> int \<Rightarrow> int \<Rightarrow> 'v::monoid_add"
  assumes "V s"
    and "\<And>x t. x \<in> set xs \<Longrightarrow> V t \<Longrightarrow>
      V (snd (body x t)) \<and> fst (body x t) = Inr () \<and>
      (\<forall>i j. G (snd (body x t)) i j = G t i j + c x i j)"
  shows "fst (for_each xs body s) = Inr () \<and> V (snd (for_each xs body s)) \<and>
         (\<forall>i j. G (snd (for_each xs body s)) i j = G s i j + sum_list (map (\<lambda>x. c x i j) xs))"
  using assms
proof (induction xs arbitrary: s)
  case Nil
  then show ?case by simp
next
  case (Cons x xs)
  have first: "V (snd (body x s))" "fst (body x s) = Inr ()"
    "\<And>i j. G (snd (body x s)) i j = G s i j + c x i j"
    using Cons.prems(2) [of x s] Cons.prems(1) by simp_all
  have step: "for_each (x # xs) body s = for_each xs body (snd (body x s))"
    using first(2) by (rule for_each_Cons_ok)
  have "fst (for_each xs body (snd (body x s))) = Inr () \<and>
      V (snd (for_each xs body (snd (body x s)))) \<and>
      (\<forall>i j. G (snd (for_each xs body (snd (body x s)))) i j =
         G (snd (body x s)) i j + sum_list (map (\<lambda>x. c x i j) xs))"
    using first(1) by (rule Cons.IH) (rule Cons.prems(2), simp_all)
  then show ?case
    unfolding step by (simp add: first(3) add.assoc)
qed

lemma row_sum:
  fixes F :: "int \<Rightarrow> 'v::semiring_0"
  assumes "distinct (map fst xs)" and "\<forall>((i, k), v) \<in> set xs. 0 \<le> k \<and> k < C"
  shows "sum_list (map (\<lambda>((i, k), va). if i = i' then va * F k else 0) xs) =
         (\<Sum>k = 0..<C. (case map_of xs (i', k) of None \<Rightarrow> 0 | Some va \<Rightarrow> va) * F k)"
  using assms
proof (induction xs)
  case Nil
  then show ?case by simp
next
  case (Cons x xs)
  obtain i k va where x: "x = ((i, k), va)" by (cases x) auto
  have IH: "sum_list (map (\<lambda>((i, k), va). if i = i' then va * F k else 0) xs) =
      (\<Sum>k = 0..<C. (case map_of xs (i', k) of None \<Rightarrow> 0 | Some va \<Rightarrow> va) * F k)"
    using Cons.prems by (intro Cons.IH) simp_all
  show ?case
  proof (cases "i = i'")
    case False
    then show ?thesis by (simp add: x IH)
  next
    case True
    have k: "k \<in> {0..<C}" using Cons.prems(2) by (simp add: x)
    have "(i', k) \<notin> fst ` set xs" using Cons.prems(1) True by (simp add: x)
    then have fresh: "map_of xs (i', k) = None" by (simp add: map_of_eq_None_iff)
    have "(\<Sum>k' = 0..<C. (case map_of (x # xs) (i', k') of None \<Rightarrow> 0 | Some va \<Rightarrow> va) * F k') =
        (\<Sum>k' = 0..<C. (if k' = k then va * F k else 0) +
           (case map_of xs (i', k') of None \<Rightarrow> 0 | Some va \<Rightarrow> va) * F k')"
      by (rule sum.cong) (auto simp add: x True fresh)
    also have "\<dots> = va * F k +
        (\<Sum>k' = 0..<C. (case map_of xs (i', k') of None \<Rightarrow> 0 | Some va \<Rightarrow> va) * F k')"
      using k by (simp add: sum.distrib)
    finally show ?thesis by (simp add: x True IH)
  qed
qed

lemma multiply_entries:
  fixes s :: "'v::semiring_0 store"
  assumes "a < length s" and "b < length s"
    and "well_formed (s ! a)" and "well_formed (s ! b)"
    and "cols (s ! a) = rows (s ! b)"
  shows "fst (multiply a b s) = Inr (length s) \<and>
         length (snd (multiply a b s)) = Suc (length s) \<and>
         rows (snd (multiply a b s) ! length s) = rows (s ! a) \<and>
         cols (snd (multiply a b s) ! length s) = cols (s ! b) \<and>
         (\<forall>i j. get (length s) i j (snd (multiply a b s)) =
            (\<Sum>k = 0..<cols (s ! a). get a i k s * get b k j s))"
proof -
  define r where "r = length s"
  define s1 where "s1 = s @ [\<lparr>rows = rows (s ! a), cols = cols (s ! b), data = []\<rparr>]"
  define bc where "bc = foldl b_cols_step [] (data (s ! b))"
  define body where "body = (\<lambda>((i, k), val_a) t.
     (case map_of bc k of
        None \<Rightarrow> (Inr (), t)
      | Some row_k \<Rightarrow>
          for_each row_k
            (\<lambda>(j, val_b) u. set_val r i j (get r i j u + val_a * val_b) u) t))"
  define V :: "'v store \<Rightarrow> bool" where
    "V = (\<lambda>t. length t = Suc (length s) \<and> rows (t ! r) = rows (s ! a) \<and> cols (t ! r) = cols (s ! b))"
  define c :: "(int \<times> int) \<times> 'v \<Rightarrow> int \<Rightarrow> int \<Rightarrow> 'v" where
    "c = (\<lambda>((i, k), va) i' j'. if i = i' then va * get b k j' s else 0)"
  have da: "distinct (map fst (data (s ! a)))" and db: "distinct (map fst (data (s ! b)))"
    using assms(3,4) by (simp_all add: well_formed_def)
  have ia: "\<forall>((i, k), v) \<in> set (data (s ! a)).
      0 \<le> i \<and> i < rows (s ! a) \<and> 0 \<le> k \<and> k < cols (s ! a)"
    using assms(3) in_bounds_keys [of "s ! a"] by (simp add: well_formed_def)
  have ib: "\<forall>((k, j), v) \<in> set (data (s ! b)).
      0 \<le> k \<and> k < rows (s ! b) \<and> 0 \<le> j \<and> j < cols (s ! b)"
    using assms(4) in_bounds_keys [of "s ! b"] by (simp add: well_formed_def)
  have chk: "check_dimensions a b ''multiply'' s = Inr ()"
    using assms(5) by (simp add: check_dimensions_def)
  have init: "SparseMatrix_init (rows (s ! a)) (cols (s ! b)) s = (r, s1)"
    by (simp add: SparseMatrix_init_def r_def s1_def)
  have items: "items a s1 = data (s ! a)" "items b s1 = data (s ! b)"
    using assms(1,2) by (simp_all add: items_def s1_def nth_append)
  have V1: "V s1" by (simp add: V_def s1_def r_def)
  have empty: "get r i j s1 = 0" for i j
    by (simp add: get_def s1_def r_def)
  have round: "V (snd (body x t)) \<and> fst (body x t) = Inr () \<and>
      (\<forall>i' j'. get r i' j' (snd (body x t)) = get r i' j' t + c x i' j')"
    if x: "x \<in> set (data (s ! a))" and t: "V t" for x t
  proof -
    obtain i k va where fields: "x = ((i, k), va)" by (cases x) auto
    have i: "0 \<le> i" "i < rows (s ! a)" using ia x by (auto simp add: fields)
    show ?thesis
    proof (cases "map_of bc k")
      case None
      have "map_of (data (s ! b)) (k, j') = None" for j'
        using db None unfolding bc_def by (rule b_cols_no_row)
      then have "get b k j' s = 0" for j'
        by (simp add: get_def)
      then show ?thesis
        using t by (simp add: body_def fields None c_def)
    next
      case (Some d)
      have d: "distinct (map fst d)" "\<And>j. map_of d j = map_of (data (s ! b)) (k, j)"
        using b_cols_row [OF db Some [unfolded bc_def]] by simp_all
      have inb: "\<forall>(j, vb) \<in> set d. 0 \<le> j \<and> j < cols (t ! r)"
      proof (clarify)
        fix j vb assume "(j, vb) \<in> set d"
        then have "map_of d j = Some vb" using d(1) by simp
        then have "((k, j), vb) \<in> set (data (s ! b))"
          unfolding d(2) by (rule map_of_SomeD)
        then show "0 \<le> j \<and> j < cols (t ! r)"
          using ib t by (auto simp add: V_def)
      qed
      let ?loop = "for_each d (\<lambda>(j, val_b) u. set_val r i j (get r i j u + va * val_b) u) t"
      have "fst ?loop = Inr () \<and>
          (\<forall>i' j'. get r i' j' (snd ?loop) =
             get r i' j' t +
               (if i' = i then va * (case map_of d j' of None \<Rightarrow> 0 | Some vb \<Rightarrow> vb) else 0))"
        using t d(1) i inb by (intro inner_loop) (simp_all add: V_def r_def)
      moreover have "length (snd ?loop) = length t \<and>
          rows (snd ?loop ! r) = rows (t ! r) \<and> cols (snd ?loop ! r) = cols (t ! r)"
        by (rule inner_loop_shape [where g = "\<lambda>j val_b u. get r i j u + va * val_b"])
      moreover have "body x t = ?loop"
        by (simp add: body_def fields Some)
      ultimately show ?thesis
        using t by (auto simp add: V_def c_def fields d(2) get_def)
    qed
  qed
  have loop: "fst (for_each (data (s ! a)) body s1) = Inr () \<and>
      V (snd (for_each (data (s ! a)) body s1)) \<and>
      (\<forall>i j. get r i j (snd (for_each (data (s ! a)) body s1)) =
         get r i j s1 + sum_list (map (\<lambda>x. c x i j) (data (s ! a))))"
    using V1 round by (rule accumulate_loop [where G = "\<lambda>t i j. get r i j t"])
  have sum: "sum_list (map (\<lambda>x. c x i j) (data (s ! a))) =
      (\<Sum>k = 0..<cols (s ! a). get a i k s * get b k j s)" for i j
  proof -
    have "sum_list (map (\<lambda>((i', k), va). if i' = i then va * get b k j s else 0) (data (s ! a))) =
        (\<Sum>k = 0..<cols (s ! a).
           (case map_of (data (s ! a)) (i, k) of None \<Rightarrow> 0 | Some va \<Rightarrow> va) * get b k j s)"
      using da ia by (intro row_sum) auto
    then show ?thesis
      by (simp add: c_def get_def [of a] case_prod_unfold)
  qed
  have res: "multiply a b s = (Inr r, snd (for_each (data (s ! a)) body s1))"
    using chk loop
    by (cases "for_each (data (s ! a)) body s1")
      (simp add: multiply_def init items Let_def body_def bc_def)
  show ?thesis
    using loop by (simp add: res V_def empty sum) (simp add: r_def)
qed

subsection \<open>The parser's loop\<close>

lemma set_calls_Cons:
  "set_calls m ((r, c, v) # es) s = set_calls m es (snd (set_val m r c v s))"
  by (simp add: set_calls_def)

lemma set_calls_shape:
  "length (set_calls m es s) = length s \<and> rows (set_calls m es s ! m) = rows (s ! m) \<and>
   cols (set_calls m es s ! m) = cols (s ! m) \<and>
   (\<forall>p. p \<noteq> m \<longrightarrow> set_calls m es s ! p = s ! p) \<and>
   (in_bounds (s ! m) \<longrightarrow> in_bounds (set_calls m es s ! m))"
  by (rule set_calls_inv
      [where I = "\<lambda>t. length t = length s \<and> rows (t ! m) = rows (s ! m) \<and>
        cols (t ! m) = cols (s ! m) \<and> (\<forall>p. p \<noteq> m \<longrightarrow> t ! p = s ! p) \<and>
        (in_bounds (s ! m) \<longrightarrow> in_bounds (t ! m))"])
    (auto simp add: set_val_in_bounds)

lemma set_calls_get:
  fixes s :: "'v::zero store"
  assumes "m < length s"
    and "\<forall>(r, c, v) \<in> set es. 0 \<le> r \<and> r < rows (s ! m) \<and> 0 \<le> c \<and> c < cols (s ! m)"
  shows "get m r c (set_calls m es s) =
         (case map_of (rev (map (\<lambda>(r, c, v). ((r, c), v)) es)) (r, c) of
            None \<Rightarrow> get m r c s | Some v \<Rightarrow> v)"
  using assms
proof (induction es arbitrary: s)
  case Nil
  then show ?case by (simp add: set_calls_def)
next
  case (Cons e es)
  obtain r0 c0 v0 where e: "e = (r0, c0, v0)" by (cases e) auto
  define s1 where "s1 = snd (set_val m r0 c0 v0 s)"
  have inb: "0 \<le> r0" "r0 < rows (s ! m)" "0 \<le> c0" "c0 < cols (s ! m)"
    using Cons.prems(2) by (simp_all add: e)
  have get1: "get m r c s1 = (if (r, c) = (r0, c0) then v0 else get m r c s)"
    unfolding s1_def using Cons.prems(1) inb by (rule get_set_val)
  have "get m r c (set_calls m es s1) =
      (case map_of (rev (map (\<lambda>(r, c, v). ((r, c), v)) es)) (r, c) of
         None \<Rightarrow> get m r c s1 | Some v \<Rightarrow> v)"
  proof (rule Cons.IH)
    show "m < length s1" using Cons.prems(1) by (simp add: s1_def)
    show "\<forall>(r, c, v) \<in> set es. 0 \<le> r \<and> r < rows (s1 ! m) \<and> 0 \<le> c \<and> c < cols (s1 ! m)"
      using Cons.prems(2) by (simp add: s1_def)
  qed
  then show ?case
    by (simp add: e set_calls_Cons s1_def [symmetric] get1 map_add_def split: option.splits)
qed

lemma parse_loop:
  fixes s :: "'v::zero store"
  assumes "map (\<lambda>(n, l). entry_of_line py_int py_float n l) nls = map Inr es"
    and "rows (s ! m) = R" and "cols (s ! m) = C"
    and "\<And>n r c. py_print (skip_warning n r c R C) = Inr ()"
  shows "for_each nls (parse_line py_int py_float py_print m R C) s =
         (Inr (), set_calls m (filter (\<lambda>(r, c, v). 0 \<le> r \<and> r < R \<and> 0 \<le> c \<and> c < C) es) s)"
  using assms(1,2,3)
proof (induction nls arbitrary: es s)
  case Nil
  then show ?case by (simp add: set_calls_def)
next
  case (Cons nl nls)
  obtain n l where nl: "nl = (n, l)" by (cases nl)
  obtain e es' where es: "es = e # es'"
    using Cons.prems(1) by (cases es) auto
  obtain r c v where e: "e = (r, c, v)" by (cases e) auto
  have line: "entry_of_line py_int py_float n l = Inr (r, c, v)"
    and rest: "map (\<lambda>(n, l). entry_of_line py_int py_float n l) nls = map Inr es'"
    using Cons.prems(1) by (simp_all add: nl es e)
  show ?case
  proof (cases "0 \<le> r \<and> r < R \<and> 0 \<le> c \<and> c < C")
    case False
    then have "parse_line py_int py_float py_print m R C nl s = (Inr (), s)"
      by (auto simp add: parse_line_def nl line assms(4))
    moreover have "for_each nls (parse_line py_int py_float py_print m R C) s =
        (Inr (), set_calls m (filter (\<lambda>(r, c, v). 0 \<le> r \<and> r < R \<and> 0 \<le> c \<and> c < C) es') s)"
      using rest Cons.prems(2,3) by (rule Cons.IH)
    ultimately show ?thesis
      using False by (auto simp add: es e)
  next
    case True
    define s1 where "s1 = snd (set_val m r c v s)"
    have "fst (set_val m r c v s) = Inr ()"
      using True Cons.prems(2,3) by (simp add: set_val_fst)
    then have "set_val m r c v s = (Inr (), s1)"
      by (simp add: s1_def prod_eq_iff)
    then have "parse_line py_int py_float py_print m R C nl s = (Inr (), s1)"
      using True by (simp add: parse_line_def nl line)
    moreover have "for_each nls (parse_line py_int py_float py_print m R C) s1 =
        (Inr (), set_calls m (filter (\<lambda>(r, c, v). 0 \<le> r \<and> r < R \<and> 0 \<le> c \<and> c < C) es') s1)"
      using rest by (rule Cons.IH) (simp_all add: s1_def Cons.prems(2,3))
    ultimately show ?thesis
      using True by (simp add: es e set_calls_Cons s1_def)
  qed
qed

text \<open>
  What the parser does when every warning can be printed: it does not fail on an
  out-of-bounds entry, and the store is the one that the \<^verbatim>\<open>set\<close> calls of the in-bounds
  entries alone, in order, produce.
\<close>

lemma parser_skips_when_print_returns:
  fixes s :: "'v::zero store"
  assumes "startswith h1 ''rows=''" and "startswith h2 ''cols=''"
    and "py_int (str_split CHR ''='' h1 ! 1) = Inr R"
    and "py_int (str_split CHR ''='' h2 ! 1) = Inr C"
    and "map (\<lambda>(n, l). entry_of_line py_int py_float n l) (enumerate 3 body) = map Inr es"
    and "\<And>n r c. py_print (skip_warning n r c R C) = Inr ()"
  shows "parse_matrix_file py_int py_float py_print (h1 # h2 # body) s =
           (Inr (length s),
            set_calls (length s) (filter (\<lambda>(r, c, v). 0 \<le> r \<and> r < R \<and> 0 \<le> c \<and> c < C) es)
              (s @ [\<lparr>rows = R, cols = C, data = []\<rparr>])) \<and>
         rows (snd (parse_matrix_file py_int py_float py_print (h1 # h2 # body) s) ! length s) = R \<and>
         cols (snd (parse_matrix_file py_int py_float py_print (h1 # h2 # body) s) ! length s) = C \<and>
         in_bounds (snd (parse_matrix_file py_int py_float py_print (h1 # h2 # body) s) ! length s) \<and>
         (\<forall>r c. get (length s) r c
                  (snd (parse_matrix_file py_int py_float py_print (h1 # h2 # body) s)) =
            (case map_of (rev (map (\<lambda>(r, c, v). ((r, c), v))
                    (filter (\<lambda>(r, c, v). 0 \<le> r \<and> r < R \<and> 0 \<le> c \<and> c < C) es))) (r, c) of
               None \<Rightarrow> 0 | Some v \<Rightarrow> v))"
proof -
  let ?s1 = "s @ [\<lparr>rows = R, cols = C, data = []\<rparr>]"
  let ?inb = "filter (\<lambda>(r, c, v). 0 \<le> r \<and> r < R \<and> 0 \<le> c \<and> c < C) es"
  have loop: "for_each (enumerate 3 body) (parse_line py_int py_float py_print (length s) R C) ?s1 =
      (Inr (), set_calls (length s) ?inb ?s1)"
    using assms(5) by (rule parse_loop) (simp_all add: assms(6))
  have res: "parse_matrix_file py_int py_float py_print (h1 # h2 # body) s =
      (Inr (length s), set_calls (length s) ?inb ?s1)"
    using assms(1-4) by (simp add: parse_matrix_file_def SparseMatrix_init_def loop)
  have shape: "length (set_calls (length s) ?inb ?s1) = length ?s1 \<and>
      rows (set_calls (length s) ?inb ?s1 ! length s) = rows (?s1 ! length s) \<and>
      cols (set_calls (length s) ?inb ?s1 ! length s) = cols (?s1 ! length s) \<and>
      (\<forall>p. p \<noteq> length s \<longrightarrow> set_calls (length s) ?inb ?s1 ! p = ?s1 ! p) \<and>
      (in_bounds (?s1 ! length s) \<longrightarrow> in_bounds (set_calls (length s) ?inb ?s1 ! length s))"
    by (rule set_calls_shape)
  have ib: "in_bounds (?s1 ! length s)"
    by (simp add: in_bounds_def)
  have empty: "get (length s) r c ?s1 = 0" for r c
    by (simp add: get_def)
  have "get (length s) r c (set_calls (length s) ?inb ?s1) =
      (case map_of (rev (map (\<lambda>(r, c, v). ((r, c), v)) ?inb)) (r, c) of
         None \<Rightarrow> get (length s) r c ?s1 | Some v \<Rightarrow> v)" for r c
    by (rule set_calls_get) auto
  then have g: "get (length s) r c (set_calls (length s) ?inb ?s1) =
      (case map_of (rev (map (\<lambda>(r, c, v). ((r, c), v)) ?inb)) (r, c) of
         None \<Rightarrow> 0 | Some v \<Rightarrow> v)" for r c
    by (simp only: empty)
  have "rows (set_calls (length s) ?inb ?s1 ! length s) = R"
    "cols (set_calls (length s) ?inb ?s1 ! length s) = C"
    "in_bounds (set_calls (length s) ?inb ?s1 ! length s)"
    using shape ib by simp_all
  then show ?thesis
    unfolding res using g by simp
qed

subsection \<open>Matrices built through the interface are well formed\<close>

lemma set_calls_well_formed:
  assumes "SparseMatrix_init R C s = (m, s0)"
  shows "well_formed (set_calls m calls s0 ! m) \<and> no_zero (set_calls m calls s0 ! m)"
proof -
  have m: "m = length s" and s0: "s0 = s @ [\<lparr>rows = R, cols = C, data = []\<rparr>]"
    using assms by (auto simp add: SparseMatrix_init_def)
  have "well_formed (s0 ! m) \<and> no_zero (s0 ! m)"
    by (simp add: m s0 well_formed_def in_bounds_def no_zero_def)
  then show ?thesis
    by (rule set_calls_inv)
      (simp add: well_formed_def set_val_distinct set_val_in_bounds set_val_no_zero)
qed

subsection \<open>A write of zero\<close>

lemma delete_absent: "k \<notin> fst ` set al \<Longrightarrow> AList.delete k al = al"
  by (induction al) auto

lemma set_val_zero:
  fixes t :: "'v::zero store"
  assumes "0 \<le> i" and "i < rows (t ! r)" and "0 \<le> j" and "j < cols (t ! r)"
  shows "set_val r i j 0 t =
         (Inr (), t[r := (t ! r)\<lparr>data := AList.delete (i, j) (data (t ! r))\<rparr>])"
proof (cases "(i, j) \<in> set (map fst (data (t ! r)))")
  case True
  with assms show ?thesis by (simp add: set_val_def)
next
  case False
  then have "AList.delete (i, j) (data (t ! r)) = data (t ! r)"
    by (intro delete_absent) simp
  with False assms show ?thesis by (simp add: set_val_def)
qed

lemma set_val_zero_absent:
  fixes t :: "'v::zero store"
  assumes "r < length t" and "0 \<le> i" and "i < rows (t ! r)" and "0 \<le> j" and "j < cols (t ! r)"
  shows "(i, j) \<notin> fst ` set (items r (snd (set_val r i j 0 t)))"
  using assms by (simp add: set_val_zero items_def delete_keys flip: set_map)

subsection \<open>multiply without laws of arithmetic\<close>

lemma inner_loop_any:
  fixes t :: "'v::{zero,plus,times} store"
  assumes "r < length t" and "distinct (map fst d)"
    and "0 \<le> i" and "i < rows (t ! r)"
    and "\<forall>(j, vb) \<in> set d. 0 \<le> j \<and> j < cols (t ! r)"
  shows "fst (for_each d (\<lambda>(j, val_b) u. set_val r i j (get r i j u + val_a * val_b) u) t) = Inr () \<and>
         (\<forall>i' j'. get r i' j'
              (snd (for_each d (\<lambda>(j, val_b) u. set_val r i j (get r i j u + val_a * val_b) u) t)) =
            (if i' = i
             then (case map_of d j' of
                     None \<Rightarrow> get r i' j' t | Some vb \<Rightarrow> get r i' j' t + val_a * vb)
             else get r i' j' t))"
proof -
  let ?g = "\<lambda>(j, vb). ((i, j), vb)"
  let ?body = "\<lambda>((i, j), val) u. set_val r i j (get r i j u + val_a * val) u"
  have same: "for_each d (\<lambda>(j, val_b) u. set_val r i j (get r i j u + val_a * val_b) u) t =
      for_each (map ?g d) ?body t"
    unfolding for_each_map by (simp add: case_prod_unfold)
  have keys: "map fst (map ?g d) = map (\<lambda>j. (i, j)) (map fst d)"
    by (simp add: case_prod_unfold)
  have "fst (for_each (map ?g d) ?body t) = Inr () \<and>
      (\<forall>i' j'. get r i' j' (snd (for_each (map ?g d) ?body t)) =
         (case map_of (map ?g d) (i', j') of
            None \<Rightarrow> get r i' j' t | Some v \<Rightarrow> get r i' j' t + val_a * v))"
  proof (rule write_loop [where f = "\<lambda>old v. old + val_a * v"])
    show "r < length t" by (rule assms(1))
    show "distinct (map fst (map ?g d))"
      unfolding keys using assms(2) by (simp add: distinct_map inj_on_def)
    show "\<forall>((i, j), v) \<in> set (map ?g d).
        0 \<le> i \<and> i < rows (t ! r) \<and> 0 \<le> j \<and> j < cols (t ! r)"
      using assms(3,4,5) by auto
  qed
  then show ?thesis
    unfolding same by (simp add: map_of_row_keys)
qed

lemma fold_loop:
  assumes "V s"
    and "\<And>x t. x \<in> set xs \<Longrightarrow> V t \<Longrightarrow>
      V (snd (body x t)) \<and> fst (body x t) = Inr () \<and>
      (\<forall>i j. G (snd (body x t)) i j = h x i j (G t i j))"
  shows "fst (for_each xs body s) = Inr () \<and> V (snd (for_each xs body s)) \<and>
         (\<forall>i j. G (snd (for_each xs body s)) i j = foldl (\<lambda>acc x. h x i j acc) (G s i j) xs)"
  using assms
proof (induction xs arbitrary: s)
  case Nil
  then show ?case by simp
next
  case (Cons x xs)
  have first: "V (snd (body x s))" "fst (body x s) = Inr ()"
    "\<And>i j. G (snd (body x s)) i j = h x i j (G s i j)"
    using Cons.prems(2) [of x s] Cons.prems(1) by simp_all
  have step: "for_each (x # xs) body s = for_each xs body (snd (body x s))"
    using first(2) by (rule for_each_Cons_ok)
  have "fst (for_each xs body (snd (body x s))) = Inr () \<and>
      V (snd (for_each xs body (snd (body x s)))) \<and>
      (\<forall>i j. G (snd (for_each xs body (snd (body x s)))) i j =
         foldl (\<lambda>acc x. h x i j acc) (G (snd (body x s)) i j) xs)"
    using first(1) by (rule Cons.IH) (rule Cons.prems(2), simp_all)
  then show ?case
    unfolding step by (simp add: first(3))
qed

lemma multiply_accumulates:
  fixes s :: "'v::{zero,plus,times} store"
  assumes "a < length s" and "b < length s"
    and "well_formed (s ! a)" and "well_formed (s ! b)"
    and "cols (s ! a) = rows (s ! b)"
  shows "fst (multiply a b s) = Inr (length s) \<and>
         length (snd (multiply a b s)) = Suc (length s) \<and>
         rows (snd (multiply a b s) ! length s) = rows (s ! a) \<and>
         cols (snd (multiply a b s) ! length s) = cols (s ! b) \<and>
         (\<forall>i j. get (length s) i j (snd (multiply a b s)) =
            foldl (\<lambda>acc ((i', k), va).
                     if i' = i
                     then (case map_of (items b s) (k, j) of
                             None \<Rightarrow> acc | Some vb \<Rightarrow> acc + va * vb)
                     else acc)
              0 (items a s))"
proof -
  define r where "r = length s"
  define s1 where "s1 = s @ [\<lparr>rows = rows (s ! a), cols = cols (s ! b), data = []\<rparr>]"
  define bc where "bc = foldl b_cols_step [] (data (s ! b))"
  define body where "body = (\<lambda>((i, k), val_a) t.
     (case map_of bc k of
        None \<Rightarrow> (Inr (), t)
      | Some row_k \<Rightarrow>
          for_each row_k
            (\<lambda>(j, val_b) u. set_val r i j (get r i j u + val_a * val_b) u) t))"
  define V :: "'v store \<Rightarrow> bool" where
    "V = (\<lambda>t. length t = Suc (length s) \<and> rows (t ! r) = rows (s ! a) \<and> cols (t ! r) = cols (s ! b))"
  define h :: "(int \<times> int) \<times> 'v \<Rightarrow> int \<Rightarrow> int \<Rightarrow> 'v \<Rightarrow> 'v" where
    "h = (\<lambda>((i', k), va) i j acc.
            if i' = i
            then (case map_of (data (s ! b)) (k, j) of None \<Rightarrow> acc | Some vb \<Rightarrow> acc + va * vb)
            else acc)"
  have da: "distinct (map fst (data (s ! a)))" and db: "distinct (map fst (data (s ! b)))"
    using assms(3,4) by (simp_all add: well_formed_def)
  have ia: "\<forall>((i, k), v) \<in> set (data (s ! a)).
      0 \<le> i \<and> i < rows (s ! a) \<and> 0 \<le> k \<and> k < cols (s ! a)"
    using assms(3) in_bounds_keys [of "s ! a"] by (simp add: well_formed_def)
  have ib: "\<forall>((k, j), v) \<in> set (data (s ! b)).
      0 \<le> k \<and> k < rows (s ! b) \<and> 0 \<le> j \<and> j < cols (s ! b)"
    using assms(4) in_bounds_keys [of "s ! b"] by (simp add: well_formed_def)
  have chk: "check_dimensions a b ''multiply'' s = Inr ()"
    using assms(5) by (simp add: check_dimensions_def)
  have init: "SparseMatrix_init (rows (s ! a)) (cols (s ! b)) s = (r, s1)"
    by (simp add: SparseMatrix_init_def r_def s1_def)
  have items: "items a s1 = data (s ! a)" "items b s1 = data (s ! b)"
    using assms(1,2) by (simp_all add: items_def s1_def nth_append)
  have V1: "V s1" by (simp add: V_def s1_def r_def)
  have empty: "get r i j s1 = 0" for i j
    by (simp add: get_def s1_def r_def)
  have round: "V (snd (body x t)) \<and> fst (body x t) = Inr () \<and>
      (\<forall>i' j'. get r i' j' (snd (body x t)) = h x i' j' (get r i' j' t))"
    if x: "x \<in> set (data (s ! a))" and t: "V t" for x t
  proof -
    obtain i k va where fields: "x = ((i, k), va)" by (cases x) auto
    have i: "0 \<le> i" "i < rows (s ! a)" using ia x by (auto simp add: fields)
    show ?thesis
    proof (cases "map_of bc k")
      case None
      have "map_of (data (s ! b)) (k, j') = None" for j'
        using db None unfolding bc_def by (rule b_cols_no_row)
      then show ?thesis
        using t by (simp add: body_def fields None h_def)
    next
      case (Some d)
      have d: "distinct (map fst d)" "\<And>j. map_of d j = map_of (data (s ! b)) (k, j)"
        using b_cols_row [OF db Some [unfolded bc_def]] by simp_all
      have inb: "\<forall>(j, vb) \<in> set d. 0 \<le> j \<and> j < cols (t ! r)"
      proof (clarify)
        fix j vb assume "(j, vb) \<in> set d"
        then have "map_of d j = Some vb" using d(1) by simp
        then have "((k, j), vb) \<in> set (data (s ! b))"
          unfolding d(2) by (rule map_of_SomeD)
        then show "0 \<le> j \<and> j < cols (t ! r)"
          using ib t by (auto simp add: V_def)
      qed
      let ?loop = "for_each d (\<lambda>(j, val_b) u. set_val r i j (get r i j u + va * val_b) u) t"
      have "fst ?loop = Inr () \<and>
          (\<forall>i' j'. get r i' j' (snd ?loop) =
             (if i' = i
              then (case map_of d j' of
                      None \<Rightarrow> get r i' j' t | Some vb \<Rightarrow> get r i' j' t + va * vb)
              else get r i' j' t))"
        using t d(1) i inb by (intro inner_loop_any) (simp_all add: V_def r_def)
      moreover have "length (snd ?loop) = length t \<and>
          rows (snd ?loop ! r) = rows (t ! r) \<and> cols (snd ?loop ! r) = cols (t ! r)"
        by (rule inner_loop_shape [where g = "\<lambda>j val_b u. get r i j u + va * val_b"])
      moreover have "body x t = ?loop"
        by (simp add: body_def fields Some)
      ultimately show ?thesis
        using t by (auto simp add: V_def h_def fields d(2))
    qed
  qed
  have loop: "fst (for_each (data (s ! a)) body s1) = Inr () \<and>
      V (snd (for_each (data (s ! a)) body s1)) \<and>
      (\<forall>i j. get r i j (snd (for_each (data (s ! a)) body s1)) =
         foldl (\<lambda>acc x. h x i j acc) (get r i j s1) (data (s ! a)))"
    using V1 round by (rule fold_loop [where G = "\<lambda>t i j. get r i j t"])
  have res: "multiply a b s = (Inr r, snd (for_each (data (s ! a)) body s1))"
    using chk loop
    by (cases "for_each (data (s ! a)) body s1")
      (simp add: multiply_def init items Let_def body_def bc_def)
  have fold: "foldl (\<lambda>acc x. h x i j acc) 0 (data (s ! a)) =
      foldl (\<lambda>acc ((i', k), va).
               if i' = i
               then (case map_of (items b s) (k, j) of
                       None \<Rightarrow> acc | Some vb \<Rightarrow> acc + va * vb)
               else acc)
        0 (items a s)" for i j
    unfolding h_def items_def by (simp add: case_prod_unfold)
  show ?thesis
    using loop by (simp add: res V_def empty fold) (simp add: r_def)
qed

section \<open>The claims\<close>

text \<open>
  C1, as stated, is false of the code: a matrix may hold \<^verbatim>\<open>inf\<close> (the parser reads it with
  \<^verbatim>\<open>float\<close>). For the \<open>1 \<times> 1\<close> matrices \<open>A = {(0,0): inf}\<close> and \<open>B = {}\<close> the loop of
  \<^verbatim>\<open>multiply\<close> finds no row \<open>0\<close> of \<open>B\<close> and writes nothing, so \<open>get(0, 0)\<close> of the result is
  \<open>0\<close>, while the sum over \<open>k\<close> in \<open>[0, 1)\<close> of \<open>A.get(0, k) * B.get(k, 0)\<close> is
  \<^verbatim>\<open>inf * 0\<close>, which is \<^verbatim>\<open>nan\<close>.
\<close>

theorem multiply_sum_counterexample:
  "well_formed ([\<lparr>rows = 1, cols = 1, data = [((0, 0), PosInf)]\<rparr>,
                 \<lparr>rows = 1, cols = 1, data = []\<rparr>] ! 0) \<and>
   well_formed ([\<lparr>rows = 1, cols = 1, data = [((0, 0), PosInf)]\<rparr>,
                 \<lparr>rows = 1, cols = 1, data = []\<rparr>] ! 1) \<and>
   multiply 0 1 [\<lparr>rows = 1, cols = 1, data = [((0, 0), PosInf)]\<rparr>,
                 \<lparr>rows = 1, cols = 1, data = []\<rparr>] =
     (Inr 2, [\<lparr>rows = 1, cols = 1, data = [((0, 0), PosInf)]\<rparr>,
              \<lparr>rows = 1, cols = 1, data = []\<rparr>,
              \<lparr>rows = 1, cols = 1, data = []\<rparr>]) \<and>
   get 2 0 0 (snd (multiply 0 1 [\<lparr>rows = 1, cols = 1, data = [((0, 0), PosInf)]\<rparr>,
                                 \<lparr>rows = 1, cols = 1, data = []\<rparr>])) = Finite 0 \<and>
   (\<Sum>k = 0..<cols ([\<lparr>rows = 1, cols = 1, data = [((0, 0), PosInf)]\<rparr>,
                      \<lparr>rows = 1, cols = 1, data = []\<rparr>] ! 0).
      get 0 0 k [\<lparr>rows = 1, cols = 1, data = [((0, 0), PosInf)]\<rparr>,
                 \<lparr>rows = 1, cols = 1, data = []\<rparr>] *
      get 1 k 0 [\<lparr>rows = 1, cols = 1, data = [((0, 0), PosInf)]\<rparr>,
                 \<lparr>rows = 1, cols = 1, data = []\<rparr>]) = NaN \<and>
   get 2 0 0 (snd (multiply 0 1 [\<lparr>rows = 1, cols = 1, data = [((0, 0), PosInf)]\<rparr>,
                                 \<lparr>rows = 1, cols = 1, data = []\<rparr>])) \<noteq>
   (\<Sum>k = 0..<cols ([\<lparr>rows = 1, cols = 1, data = [((0, 0), PosInf)]\<rparr>,
                      \<lparr>rows = 1, cols = 1, data = []\<rparr>] ! 0).
      get 0 0 k [\<lparr>rows = 1, cols = 1, data = [((0, 0), PosInf)]\<rparr>,
                 \<lparr>rows = 1, cols = 1, data = []\<rparr>] *
      get 1 k 0 [\<lparr>rows = 1, cols = 1, data = [((0, 0), PosInf)]\<rparr>,
                 \<lparr>rows = 1, cols = 1, data = []\<rparr>])"
proof -
  let ?s = "[\<lparr>rows = 1, cols = 1, data = [((0, 0), PosInf)]\<rparr>,
             \<lparr>rows = 1, cols = 1, data = []\<rparr>]"
  have interval: "{0..<1::int} = {0}" by auto
  have wf: "well_formed (?s ! 0)" "well_formed (?s ! 1)"
    by (simp_all add: well_formed_def in_bounds_def)
  have res: "multiply 0 1 ?s = (Inr 2, ?s @ [\<lparr>rows = 1, cols = 1, data = []\<rparr>])"
    by (simp add: multiply_def check_dimensions_def SparseMatrix_init_def items_def)
  have got: "get 2 0 0 (snd (multiply 0 1 ?s)) = Finite 0"
    unfolding res by (simp add: get_def zero_pyfloat_def)
  have claimed: "(\<Sum>k = 0..<cols (?s ! 0). get 0 0 k ?s * get 1 k 0 ?s) = NaN"
    by (simp add: interval get_def zero_pyfloat_def)
  show ?thesis
    unfolding got claimed using wf res by simp
qed

text \<open>
  C1, amended. For matrices \<open>a\<close> and \<open>b\<close> with \<open>a.cols = b.rows\<close> (any two objects of the
  store whose keys are in bounds), \<^verbatim>\<open>multiply(a, b)\<close> returns a new matrix of shape
  \<open>(a.rows, b.cols)\<close> in which \<open>get(i, j)\<close> is what adding up, from zero and in the order of
  the entries of \<open>a\<close>, the products \<open>v\<^sub>a * v\<^sub>b\<close> gives, over the entries \<open>(i, k, v\<^sub>a)\<close> of \<open>a\<close>
  for which \<open>b\<close> has an entry \<open>(k, j, v\<^sub>b)\<close>; this holds for values of any kind. Where the
  values obey the laws of exact arithmetic (a semiring, as the integers), that is the sum
  over \<open>k\<close> in \<open>[0, a.cols)\<close> of \<open>a.get(i, k) * b.get(k, j)\<close>. In particular, for the
  \<open>2 \<times> 2\<close> matrices \<open>A = {(0,0): 2, (0,1): 3}\<close> and \<open>B = {(0,0): 4, (1,0): 5}\<close> the result has
  the single entry \<open>(0,0)\<close> with value \<open>23\<close>, and \<open>(0,1)\<close> is not a key.
\<close>

theorem multiply_row_by_column:
  "(\<forall>(s :: 'w::{zero,plus,times} store) a b.
      a < length s \<and> b < length s \<and> well_formed (s ! a) \<and> well_formed (s ! b) \<and>
      cols (s ! a) = rows (s ! b) \<longrightarrow>
        fst (multiply a b s) = Inr (length s) \<and>
        length (snd (multiply a b s)) = Suc (length s) \<and>
        rows (snd (multiply a b s) ! length s) = rows (s ! a) \<and>
        cols (snd (multiply a b s) ! length s) = cols (s ! b) \<and>
        (\<forall>i j. get (length s) i j (snd (multiply a b s)) =
           foldl (\<lambda>acc ((i', k), va).
                    if i' = i
                    then (case map_of (items b s) (k, j) of
                            None \<Rightarrow> acc | Some vb \<Rightarrow> acc + va * vb)
                    else acc)
             0 (items a s))) \<and>
   (\<forall>(s :: 'v::semiring_0 store) a b.
      a < length s \<and> b < length s \<and> well_formed (s ! a) \<and> well_formed (s ! b) \<and>
      cols (s ! a) = rows (s ! b) \<longrightarrow>
        fst (multiply a b s) = Inr (length s) \<and>
        length (snd (multiply a b s)) = Suc (length s) \<and>
        rows (snd (multiply a b s) ! length s) = rows (s ! a) \<and>
        cols (snd (multiply a b s) ! length s) = cols (s ! b) \<and>
        (\<forall>i j. get (length s) i j (snd (multiply a b s)) =
           (\<Sum>k = 0..<cols (s ! a). get a i k s * get b k j s))) \<and>
   multiply 0 1 [\<lparr>rows = 2, cols = 2, data = [((0, 0), 2), ((0, 1), 3::int)]\<rparr>,
                 \<lparr>rows = 2, cols = 2, data = [((0, 0), 4), ((1, 0), 5)]\<rparr>] =
     (Inr 2, [\<lparr>rows = 2, cols = 2, data = [((0, 0), 2), ((0, 1), 3)]\<rparr>,
              \<lparr>rows = 2, cols = 2, data = [((0, 0), 4), ((1, 0), 5)]\<rparr>,
              \<lparr>rows = 2, cols = 2, data = [((0, 0), 23)]\<rparr>])"
proof (intro conjI)
  show "\<forall>(s :: 'w store) a b.
      a < length s \<and> b < length s \<and> well_formed (s ! a) \<and> well_formed (s ! b) \<and>
      cols (s ! a) = rows (s ! b) \<longrightarrow>
        fst (multiply a b s) = Inr (length s) \<and>
        length (snd (multiply a b s)) = Suc (length s) \<and>
        rows (snd (multiply a b s) ! length s) = rows (s ! a) \<and>
        cols (snd (multiply a b s) ! length s) = cols (s ! b) \<and>
        (\<forall>i j. get (length s) i j (snd (multiply a b s)) =
           foldl (\<lambda>acc ((i', k), va).
                    if i' = i
                    then (case map_of (items b s) (k, j) of
                            None \<Rightarrow> acc | Some vb \<Rightarrow> acc + va * vb)
                    else acc)
             0 (items a s))"
  proof (intro allI impI)
    fix s :: "'w store" and a b
    assume "a < length s \<and> b < length s \<and> well_formed (s ! a) \<and> well_formed (s ! b) \<and>
      cols (s ! a) = rows (s ! b)"
    then show "fst (multiply a b s) = Inr (length s) \<and>
        length (snd (multiply a b s)) = Suc (length s) \<and>
        rows (snd (multiply a b s) ! length s) = rows (s ! a) \<and>
        cols (snd (multiply a b s) ! length s) = cols (s ! b) \<and>
        (\<forall>i j. get (length s) i j (snd (multiply a b s)) =
           foldl (\<lambda>acc ((i', k), va).
                    if i' = i
                    then (case map_of (items b s) (k, j) of
                            None \<Rightarrow> acc | Some vb \<Rightarrow> acc + va * vb)
                    else acc)
             0 (items a s))"
      by (intro multiply_accumulates) simp_all
  qed
next
  show "\<forall>(s :: 'v store) a b.
      a < length s \<and> b < length s \<and> well_formed (s ! a) \<and> well_formed (s ! b) \<and>
      cols (s ! a) = rows (s ! b) \<longrightarrow>
        fst (multiply a b s) = Inr (length s) \<and>
        length (snd (multiply a b s)) = Suc (length s) \<and>
        rows (snd (multiply a b s) ! length s) = rows (s ! a) \<and>
        cols (snd (multiply a b s) ! length s) = cols (s ! b) \<and>
        (\<forall>i j. get (length s) i j (snd (multiply a b s)) =
           (\<Sum>k = 0..<cols (s ! a). get a i k s * get b k j s))"
  proof (intro allI impI)
    fix s :: "'v store" and a b
    assume "a < length s \<and> b < length s \<and> well_formed (s ! a) \<and> well_formed (s ! b) \<and>
      cols (s ! a) = rows (s ! b)"
    then show "fst (multiply a b s) = Inr (length s) \<and>
        length (snd (multiply a b s)) = Suc (length s) \<and>
        rows (snd (multiply a b s) ! length s) = rows (s ! a) \<and>
        cols (snd (multiply a b s) ! length s) = cols (s ! b) \<and>
        (\<forall>i j. get (length s) i j (snd (multiply a b s)) =
           (\<Sum>k = 0..<cols (s ! a). get a i k s * get b k j s))"
      by (intro multiply_entries) simp_all
  qed
next
  show "multiply 0 1 [\<lparr>rows = 2, cols = 2, data = [((0, 0), 2), ((0, 1), 3::int)]\<rparr>,
                 \<lparr>rows = 2, cols = 2, data = [((0, 0), 4), ((1, 0), 5)]\<rparr>] =
     (Inr 2, [\<lparr>rows = 2, cols = 2, data = [((0, 0), 2), ((0, 1), 3)]\<rparr>,
              \<lparr>rows = 2, cols = 2, data = [((0, 0), 4), ((1, 0), 5)]\<rparr>,
              \<lparr>rows = 2, cols = 2, data = [((0, 0), 23)]\<rparr>])"
    by (simp add: multiply_def check_dimensions_def SparseMatrix_init_def items_def
        b_cols_step_def set_val_def get_def)
qed

theorem multiply_row_by_column_witness:
  "well_formed ([\<lparr>rows = 1, cols = 2, data = [((0, 1), 3), ((0, 0), 2::int)]\<rparr>,
                 \<lparr>rows = 2, cols = 1, data = [((0, 0), 4), ((1, 0), 5)]\<rparr>] ! 0) \<and>
   well_formed ([\<lparr>rows = 1, cols = 2, data = [((0, 1), 3), ((0, 0), 2::int)]\<rparr>,
                 \<lparr>rows = 2, cols = 1, data = [((0, 0), 4), ((1, 0), 5)]\<rparr>] ! 1) \<and>
   fst (multiply 0 1 [\<lparr>rows = 1, cols = 2, data = [((0, 1), 3), ((0, 0), 2::int)]\<rparr>,
                      \<lparr>rows = 2, cols = 1, data = [((0, 0), 4), ((1, 0), 5)]\<rparr>]) = Inr 2 \<and>
   get 2 0 0 (snd (multiply 0 1 [\<lparr>rows = 1, cols = 2, data = [((0, 1), 3), ((0, 0), 2::int)]\<rparr>,
                      \<lparr>rows = 2, cols = 1, data = [((0, 0), 4), ((1, 0), 5)]\<rparr>])) = 23 \<and>
   well_formed ([\<lparr>rows = 1, cols = 2, data = [((0, 1), Finite 3), ((0, 0), PosInf)]\<rparr>,
                 \<lparr>rows = 2, cols = 1, data = [((1, 0), Finite 5)]\<rparr>] ! 0) \<and>
   well_formed ([\<lparr>rows = 1, cols = 2, data = [((0, 1), Finite 3), ((0, 0), PosInf)]\<rparr>,
                 \<lparr>rows = 2, cols = 1, data = [((1, 0), Finite 5)]\<rparr>] ! 1) \<and>
   get 2 0 0 (snd (multiply 0 1
      [\<lparr>rows = 1, cols = 2, data = [((0, 1), Finite 3), ((0, 0), PosInf)]\<rparr>,
       \<lparr>rows = 2, cols = 1, data = [((1, 0), Finite 5)]\<rparr>])) = Finite 15"
proof -
  let ?s = "[\<lparr>rows = 1, cols = 2, data = [((0, 1), 3), ((0, 0), 2::int)]\<rparr>,
             \<lparr>rows = 2, cols = 1, data = [((0, 0), 4), ((1, 0), 5)]\<rparr>]"
  let ?t = "[\<lparr>rows = 1, cols = 2, data = [((0, 1), Finite 3), ((0, 0), PosInf)]\<rparr>,
             \<lparr>rows = 2, cols = 1, data = [((1, 0), Finite 5)]\<rparr>]"
  have h: "0 < length ?s \<and> 1 < length ?s \<and> well_formed (?s ! 0) \<and> well_formed (?s ! 1) \<and>
      cols (?s ! 0) = rows (?s ! 1)"
    by (simp add: well_formed_def in_bounds_def)
  have h': "0 < length ?t \<and> 1 < length ?t \<and> well_formed (?t ! 0) \<and> well_formed (?t ! 1) \<and>
      cols (?t ! 0) = rows (?t ! 1)"
    by (simp add: well_formed_def in_bounds_def)
  have interval: "{0..<2::int} = {0, 1}" by auto
  have len: "length ?s = 2" "length ?t = 2" by simp_all
  have "fst (multiply 0 1 ?s) = Inr (length ?s) \<and>
      get (length ?s) 0 0 (snd (multiply 0 1 ?s)) =
        (\<Sum>k = 0..<cols (?s ! 0). get 0 0 k ?s * get 1 k 0 ?s)"
    using multiply_row_by_column [THEN conjunct2, THEN conjunct1, rule_format, OF h] by blast
  then have "fst (multiply 0 1 ?s) = Inr 2 \<and>
      get 2 0 0 (snd (multiply 0 1 ?s)) = (\<Sum>k = 0..<cols (?s ! 0). get 0 0 k ?s * get 1 k 0 ?s)"
    unfolding len .
  moreover have "(\<Sum>k = 0..<cols (?s ! 0). get 0 0 k ?s * get 1 k 0 ?s) = 23"
    by (simp add: interval get_def)
  moreover have "get (length ?t) 0 0 (snd (multiply 0 1 ?t)) =
      foldl (\<lambda>acc ((i', k), va).
               if i' = 0
               then (case map_of (items 1 ?t) (k, 0) of
                       None \<Rightarrow> acc | Some vb \<Rightarrow> acc + va * vb)
               else acc)
        0 (items 0 ?t)"
    using multiply_row_by_column [THEN conjunct1, rule_format, OF h'] by blast
  then have "get 2 0 0 (snd (multiply 0 1 ?t)) = Finite 15"
    unfolding len by (simp add: items_def zero_pyfloat_def)
  ultimately show ?thesis
    using h h' by simp
qed

text \<open>
  C2. For matrices \<open>a\<close> and \<open>b\<close> of equal shape (any two objects of the store whose keys
  are in bounds, \<open>a\<close> and \<open>b\<close> possibly the same object), \<^verbatim>\<open>add(a, b)\<close> returns a new matrix
  of the shape of \<open>a\<close> with \<open>get(i, j) = a.get(i, j) + b.get(i, j)\<close> at every coordinate.
  It gets there in two steps: the first loop leaves in the result the non-zero entries of
  \<open>a\<close>, unchanged and in order; the second loop, started from that store, sets
  \<open>result[i, j] = result.get(i, j) + v\<close> for every entry \<open>(i, j, v)\<close> of \<open>b\<close>.
\<close>

theorem add_entrywise_sum:
  fixes s :: "'v::monoid_add store"
  assumes "a < length s" and "b < length s"
    and "well_formed (s ! a)" and "well_formed (s ! b)"
    and "rows (s ! a) = rows (s ! b)" and "cols (s ! a) = cols (s ! b)"
  shows "fst (add a b s) = Inr (length s) \<and>
         length (snd (add a b s)) = Suc (length s) \<and>
         rows (snd (add a b s) ! length s) = rows (s ! a) \<and>
         cols (snd (add a b s) ! length s) = cols (s ! a) \<and>
         (\<forall>i j. get (length s) i j (snd (add a b s)) = get a i j s + get b i j s) \<and>
         snd (add a b s) =
           snd (for_each (items b s)
                  (\<lambda>((i, j), val) t. set_val (length s) i j (get (length s) i j t + val) t)
                  (s @ [\<lparr>rows = rows (s ! a), cols = cols (s ! a),
                          data = filter (\<lambda>(k, v). v \<noteq> 0) (items a s)\<rparr>]))"
proof -
  let ?s2 = "s @ [\<lparr>rows = rows (s ! a), cols = cols (s ! a),
                    data = filter (\<lambda>(k, v). v \<noteq> 0) (items a s)\<rparr>]"
  let ?l2 = "for_each (items b ?s2)
               (\<lambda>((i, j), val) t. set_val (length s) i j (get (length s) i j t + val) t) ?s2"
  have chk: "check_dimensions a b ''add'' s = Inr ()"
    using assms(5,6) by (simp add: check_dimensions_def)
  have items: "items b ?s2 = items b s"
    using assms(2) by (simp add: items_def nth_append)
  have l2: "fst ?l2 = Inr () \<and> length (snd ?l2) = Suc (length s) \<and>
         rows (snd ?l2 ! length s) = rows (s ! a) \<and> cols (snd ?l2 ! length s) = cols (s ! a) \<and>
         no_zero (snd ?l2 ! length s) \<and>
         (\<forall>i j. get (length s) i j (snd ?l2) =
            (case map_of (data (s ! b)) (i, j) of
               None \<Rightarrow> get a i j s | Some v \<Rightarrow> get a i j s + v))"
    using assms by (rule second_phase [where f = "(+)"])
  have res: "add a b s = (Inr (length s), snd ?l2)"
    using l2 chk copy_phase [OF assms(1,3)]
    by (cases ?l2) (simp add: add_def SparseMatrix_init_def)
  have "get (length s) i j (snd ?l2) = get a i j s + get b i j s" for i j
    using l2 by (simp add: get_eq_map_of [of b] split: option.splits)
  then show ?thesis
    using l2 by (simp add: res) (simp add: items)
qed

theorem add_entrywise_sum_witness:
  "add 0 1 [\<lparr>rows = 2, cols = 2, data = [((0, 0), 1), ((1, 1), 2::int)]\<rparr>,
            \<lparr>rows = 2, cols = 2, data = [((0, 0), 1), ((1, 1), 1)]\<rparr>] =
     (Inr 2, [\<lparr>rows = 2, cols = 2, data = [((0, 0), 1), ((1, 1), 2)]\<rparr>,
              \<lparr>rows = 2, cols = 2, data = [((0, 0), 1), ((1, 1), 1)]\<rparr>,
              \<lparr>rows = 2, cols = 2, data = [((0, 0), 2), ((1, 1), 3)]\<rparr>])"
proof -
  let ?s = "[\<lparr>rows = 2, cols = 2, data = [((0, 0), 1), ((1, 1), 2::int)]\<rparr>,
             \<lparr>rows = 2, cols = 2, data = [((0, 0), 1), ((1, 1), 1)]\<rparr>]"
  have h: "0 < length ?s" "1 < length ?s" "well_formed (?s ! 0)" "well_formed (?s ! 1)"
    "rows (?s ! 0) = rows (?s ! 1)" "cols (?s ! 0) = cols (?s ! 1)"
    by (simp_all add: well_formed_def in_bounds_def)
  have "snd (add 0 1 ?s) =
      [\<lparr>rows = 2, cols = 2, data = [((0, 0), 1), ((1, 1), 2)]\<rparr>,
       \<lparr>rows = 2, cols = 2, data = [((0, 0), 1), ((1, 1), 1)]\<rparr>,
       \<lparr>rows = 2, cols = 2, data = [((0, 0), 2), ((1, 1), 3)]\<rparr>]"
    using add_entrywise_sum [OF h] by (simp add: items_def set_val_def get_def)
  moreover have "fst (add 0 1 ?s) = Inr 2"
    using add_entrywise_sum [OF h] by simp
  ultimately show ?thesis by (simp add: prod_eq_iff)
qed

text \<open>
  C3 (invariant I2). Starting from a newly constructed matrix, after any finite sequence
  of \<^verbatim>\<open>set\<close> calls no entry of the mapping has the value zero. After a further call
  \<^verbatim>\<open>set(r, c, 0)\<close>, whether it raised or not, \<^verbatim>\<open>get(r, c)\<close> returns zero and \<open>(r, c)\<close> is
  not a key of \<^verbatim>\<open>items()\<close>.
\<close>

theorem sparsity_invariant:
  assumes "SparseMatrix_init R C s = (m, s0)"
  shows "no_zero (set_calls m calls s0 ! m) \<and>
         get m r c (snd (set_val m r c 0 (set_calls m calls s0))) = 0 \<and>
         (r, c) \<notin> fst ` set (items m (snd (set_val m r c 0 (set_calls m calls s0))))"
proof -
  define t where "t = set_calls m calls s0"
  define I :: "'a store \<Rightarrow> bool"
    where "I = (\<lambda>u. length u = length s0 \<and> no_zero (u ! m) \<and> in_bounds (u ! m))"
  have m: "m = length s" and s0: "s0 = s @ [\<lparr>rows = R, cols = C, data = []\<rparr>]"
    using assms by (auto simp add: SparseMatrix_init_def)
  have "I s0"
    by (simp add: I_def m s0 no_zero_def in_bounds_def)
  then have "I t"
    unfolding t_def
    by (rule set_calls_inv) (simp add: I_def set_val_no_zero set_val_in_bounds)
  then have len: "m < length t" and nz: "no_zero (t ! m)" and ib: "in_bounds (t ! m)"
    by (simp_all add: I_def m s0)
  have absent: "(r, c) \<notin> fst ` set (data (snd (set_val m r c 0 t) ! m))"
  proof (cases "0 \<le> r \<and> r < rows (t ! m) \<and> 0 \<le> c \<and> c < cols (t ! m)")
    case True
    then show ?thesis
      using len by (auto simp add: set_val_def delete_keys simp flip: set_map)
  next
    case False
    then have "snd (set_val m r c 0 t) = t" by (rule set_val_fail)
    moreover have "(r, c) \<notin> fst ` set (data (t ! m))"
      using ib False by (auto simp add: in_bounds_def list_all_iff)
    ultimately show ?thesis by simp
  qed
  then have "map_of (data (snd (set_val m r c 0 t) ! m)) (r, c) = None"
    by (simp add: map_of_eq_None_iff)
  then have "get m r c (snd (set_val m r c 0 t)) = 0"
    by (simp add: get_def)
  with nz absent show ?thesis
    by (simp add: t_def items_def)
qed

theorem sparsity_invariant_witness:
  "no_zero (set_calls 0 [(0, 0, 5::int), (1, 1, 0), (0, 0, 0), (1, 0, 3)]
              [\<lparr>rows = 2, cols = 2, data = []\<rparr>] ! 0) \<and>
   get 0 1 0 (snd (set_val 0 1 0 0 (set_calls 0 [(0, 0, 5::int), (1, 1, 0), (0, 0, 0), (1, 0, 3)]
              [\<lparr>rows = 2, cols = 2, data = []\<rparr>]))) = 0 \<and>
   (1, 0) \<notin> fst ` set (items 0 (snd (set_val 0 1 0 0
      (set_calls 0 [(0, 0, 5::int), (1, 1, 0), (0, 0, 0), (1, 0, 3)]
              [\<lparr>rows = 2, cols = 2, data = []\<rparr>]))))"
proof -
  have init: "SparseMatrix_init 2 2 ([] :: int store) = (0, [\<lparr>rows = 2, cols = 2, data = []\<rparr>])"
    by (simp add: SparseMatrix_init_def)
  show ?thesis
    using sparsity_invariant [OF init, of "[(0, 0, 5::int), (1, 1, 0), (0, 0, 0), (1, 0, 3)]" 1 0]
    by simp
qed

text \<open>
  C4. \<^verbatim>\<open>check_dimensions\<close> raises the dimension error for \<^verbatim>\<open>'add'\<close> and \<^verbatim>\<open>'subtract'\<close>
  exactly when the row counts or the column counts differ, and for \<^verbatim>\<open>'multiply'\<close>
  exactly when the columns of \<open>a\<close> differ from the rows of \<open>b\<close>; otherwise it returns.
  The same holds of \<^verbatim>\<open>add\<close>, \<^verbatim>\<open>subtract\<close> and \<^verbatim>\<open>multiply\<close> themselves: each fails with
  a dimension error exactly under that condition, and when the check passes the
  operation goes on and raises no dimension error.
\<close>

theorem dimension_check_iff:
  fixes s :: "'v::{zero,plus,minus,times} store"
  shows
  "((\<exists>e. check_dimensions a b ''add'' s = Inl e \<and> DimensionMismatch e) \<longleftrightarrow>
      rows (s ! a) \<noteq> rows (s ! b) \<or> cols (s ! a) \<noteq> cols (s ! b)) \<and>
   ((\<exists>e. check_dimensions a b ''subtract'' s = Inl e \<and> DimensionMismatch e) \<longleftrightarrow>
      rows (s ! a) \<noteq> rows (s ! b) \<or> cols (s ! a) \<noteq> cols (s ! b)) \<and>
   ((\<exists>e. check_dimensions a b ''multiply'' s = Inl e \<and> DimensionMismatch e) \<longleftrightarrow>
      cols (s ! a) \<noteq> rows (s ! b)) \<and>
   (rows (s ! a) = rows (s ! b) \<and> cols (s ! a) = cols (s ! b) \<longrightarrow>
      check_dimensions a b ''add'' s = Inr () \<and> check_dimensions a b ''subtract'' s = Inr ()) \<and>
   (cols (s ! a) = rows (s ! b) \<longrightarrow> check_dimensions a b ''multiply'' s = Inr ()) \<and>
   ((\<exists>e. fst (add a b s) = Inl e \<and> DimensionMismatch e) \<longleftrightarrow>
      rows (s ! a) \<noteq> rows (s ! b) \<or> cols (s ! a) \<noteq> cols (s ! b)) \<and>
   ((\<exists>e. fst (subtract a b s) = Inl e \<and> DimensionMismatch e) \<longleftrightarrow>
      rows (s ! a) \<noteq> rows (s ! b) \<or> cols (s ! a) \<noteq> cols (s ! b)) \<and>
   ((\<exists>e. fst (multiply a b s) = Inl e \<and> DimensionMismatch e) \<longleftrightarrow>
      cols (s ! a) \<noteq> rows (s ! b))"
proof -
  have not_dim: "\<not> DimensionMismatch IndexOutOfBounds"
    by (simp add: DimensionMismatch_def IndexOutOfBounds_def)
  have chk_add: "(\<exists>e. check_dimensions a b ''add'' s = Inl e \<and> DimensionMismatch e) \<longleftrightarrow>
      rows (s ! a) \<noteq> rows (s ! b) \<or> cols (s ! a) \<noteq> cols (s ! b)"
    by (auto simp add: check_dimensions_def DimensionMismatch_def)
  have chk_sub: "(\<exists>e. check_dimensions a b ''subtract'' s = Inl e \<and> DimensionMismatch e) \<longleftrightarrow>
      rows (s ! a) \<noteq> rows (s ! b) \<or> cols (s ! a) \<noteq> cols (s ! b)"
    by (auto simp add: check_dimensions_def DimensionMismatch_def)
  have chk_mul: "(\<exists>e. check_dimensions a b ''multiply'' s = Inl e \<and> DimensionMismatch e) \<longleftrightarrow>
      cols (s ! a) \<noteq> rows (s ! b)"
    by (auto simp add: check_dimensions_def DimensionMismatch_def)
  have pass: "rows (s ! a) = rows (s ! b) \<and> cols (s ! a) = cols (s ! b) \<longrightarrow>
      check_dimensions a b ''add'' s = Inr () \<and> check_dimensions a b ''subtract'' s = Inr ()"
    "cols (s ! a) = rows (s ! b) \<longrightarrow> check_dimensions a b ''multiply'' s = Inr ()"
    by (simp_all add: check_dimensions_def)
  have op_add: "(\<exists>e. fst (add a b s) = Inl e \<and> DimensionMismatch e) \<longleftrightarrow>
      (\<exists>e. check_dimensions a b ''add'' s = Inl e \<and> DimensionMismatch e)"
  proof
    assume "\<exists>e. fst (add a b s) = Inl e \<and> DimensionMismatch e"
    then obtain e where "fst (add a b s) = Inl e" "DimensionMismatch e" by blast
    with add_raises [of a b s e] not_dim
    show "\<exists>e. check_dimensions a b ''add'' s = Inl e \<and> DimensionMismatch e" by auto
  next
    assume "\<exists>e. check_dimensions a b ''add'' s = Inl e \<and> DimensionMismatch e"
    then show "\<exists>e. fst (add a b s) = Inl e \<and> DimensionMismatch e"
      by (auto simp add: add_def)
  qed
  have op_sub: "(\<exists>e. fst (subtract a b s) = Inl e \<and> DimensionMismatch e) \<longleftrightarrow>
      (\<exists>e. check_dimensions a b ''subtract'' s = Inl e \<and> DimensionMismatch e)"
  proof
    assume "\<exists>e. fst (subtract a b s) = Inl e \<and> DimensionMismatch e"
    then obtain e where "fst (subtract a b s) = Inl e" "DimensionMismatch e" by blast
    with subtract_raises [of a b s e] not_dim
    show "\<exists>e. check_dimensions a b ''subtract'' s = Inl e \<and> DimensionMismatch e" by auto
  next
    assume "\<exists>e. check_dimensions a b ''subtract'' s = Inl e \<and> DimensionMismatch e"
    then show "\<exists>e. fst (subtract a b s) = Inl e \<and> DimensionMismatch e"
      by (auto simp add: subtract_def)
  qed
  have op_mul: "(\<exists>e. fst (multiply a b s) = Inl e \<and> DimensionMismatch e) \<longleftrightarrow>
      (\<exists>e. check_dimensions a b ''multiply'' s = Inl e \<and> DimensionMismatch e)"
  proof
    assume "\<exists>e. fst (multiply a b s) = Inl e \<and> DimensionMismatch e"
    then obtain e where "fst (multiply a b s) = Inl e" "DimensionMismatch e" by blast
    with multiply_raises [of a b s e] not_dim
    show "\<exists>e. check_dimensions a b ''multiply'' s = Inl e \<and> DimensionMismatch e" by auto
  next
    assume "\<exists>e. check_dimensions a b ''multiply'' s = Inl e \<and> DimensionMismatch e"
    then show "\<exists>e. fst (multiply a b s) = Inl e \<and> DimensionMismatch e"
      by (auto simp add: multiply_def)
  qed
  show ?thesis
    unfolding op_add op_sub op_mul
    using chk_add chk_sub chk_mul pass by blast
qed

theorem dimension_check_iff_witness:
  "(\<exists>e. fst (add 0 1 [\<lparr>rows = 2, cols = 2, data = [((0, 0), 2::int)]\<rparr>,
                        \<lparr>rows = 3, cols = 2, data = []\<rparr>]) = Inl e \<and> DimensionMismatch e) \<and>
   (\<exists>e. fst (multiply 0 1 [\<lparr>rows = 2, cols = 2, data = [((0, 0), 2::int)]\<rparr>,
                        \<lparr>rows = 3, cols = 2, data = []\<rparr>]) = Inl e \<and> DimensionMismatch e) \<and>
   check_dimensions 1 0 ''multiply'' [\<lparr>rows = 2, cols = 2, data = [((0, 0), 2::int)]\<rparr>,
                        \<lparr>rows = 3, cols = 2, data = []\<rparr>] = Inr () \<and>
   \<not> (\<exists>e. fst (multiply 1 0 [\<lparr>rows = 2, cols = 2, data = [((0, 0), 2::int)]\<rparr>,
                        \<lparr>rows = 3, cols = 2, data = []\<rparr>]) = Inl e \<and> DimensionMismatch e) \<and>
   check_dimensions 0 0 ''subtract'' [\<lparr>rows = 2, cols = 2, data = [((0, 0), 2::int)]\<rparr>,
                        \<lparr>rows = 3, cols = 2, data = []\<rparr>] = Inr () \<and>
   \<not> (\<exists>e. fst (subtract 0 0 [\<lparr>rows = 2, cols = 2, data = [((0, 0), 2::int)]\<rparr>,
                        \<lparr>rows = 3, cols = 2, data = []\<rparr>]) = Inl e \<and> DimensionMismatch e)"
  using dimension_check_iff [of 0 1 "[\<lparr>rows = 2, cols = 2, data = [((0, 0), 2::int)]\<rparr>,
                        \<lparr>rows = 3, cols = 2, data = []\<rparr>]"]
    dimension_check_iff [of 1 0 "[\<lparr>rows = 2, cols = 2, data = [((0, 0), 2::int)]\<rparr>,
                        \<lparr>rows = 3, cols = 2, data = []\<rparr>]"]
    dimension_check_iff [of 0 0 "[\<lparr>rows = 2, cols = 2, data = [((0, 0), 2::int)]\<rparr>,
                        \<lparr>rows = 3, cols = 2, data = []\<rparr>]"]
  by simp

text \<open>
  C5. \<^verbatim>\<open>set(r, c, v)\<close> raises the \<^verbatim>\<open>IndexError\<close> of an index out of bounds exactly when
  \<open>r < 0\<close> or \<open>r \<ge> rows\<close> or \<open>c < 0\<close> or \<open>c \<ge> cols\<close>, whatever the value \<open>v\<close>; a
  call that raises leaves the whole store, and so the mapping of the matrix, as it was;
  a call with coordinates in bounds does not raise.
\<close>

theorem set_raises_iff_out_of_bounds:
  "(fst (set_val self r c v s) = Inl IndexOutOfBounds \<longleftrightarrow>
      r < 0 \<or> r \<ge> rows (s ! self) \<or> c < 0 \<or> c \<ge> cols (s ! self)) \<and>
   (\<forall>e. fst (set_val self r c v s) = Inl e \<longrightarrow>
      e = IndexOutOfBounds \<and> snd (set_val self r c v s) = s) \<and>
   (0 \<le> r \<and> r < rows (s ! self) \<and> 0 \<le> c \<and> c < cols (s ! self) \<longrightarrow>
      fst (set_val self r c v s) = Inr ())"
  by (auto simp add: set_val_def IndexOutOfBounds_def)

theorem set_raises_iff_out_of_bounds_witness:
  "set_val 0 2 0 (5::int) [\<lparr>rows = 2, cols = 2, data = [((0, 0), 2)]\<rparr>] =
     (Inl IndexOutOfBounds, [\<lparr>rows = 2, cols = 2, data = [((0, 0), 2)]\<rparr>]) \<and>
   fst (set_val 0 1 1 (5::int) [\<lparr>rows = 2, cols = 2, data = [((0, 0), 2)]\<rparr>]) = Inr ()"
  using set_raises_iff_out_of_bounds
      [of 0 2 0 "5::int" "[\<lparr>rows = 2, cols = 2, data = [((0, 0), 2)]\<rparr>]"]
    set_raises_iff_out_of_bounds
      [of 0 1 1 "5::int" "[\<lparr>rows = 2, cols = 2, data = [((0, 0), 2)]\<rparr>]"]
  by (simp add: prod_eq_iff)

text \<open>
  C6. \<^verbatim>\<open>add\<close>, \<^verbatim>\<open>subtract\<close> and \<^verbatim>\<open>multiply\<close> do not mutate their inputs: whether the call
  returns or raises, every object that existed before the call (the inputs \<open>a\<close> and \<open>b\<close>
  among them, which may be one and the same object) has the rows, the columns and the
  mapping it had before; and a returned result is a newly allocated object, at an address
  that did not exist before the call and so is neither \<open>a\<close> nor \<open>b\<close>.
\<close>

theorem operations_leave_inputs_unchanged:
  fixes s :: "'v::{zero,plus,minus,times} store"
  assumes "a < length s" and "b < length s"
    and "f = add \<or> f = subtract \<or> f = multiply"
  shows "snd (f a b s) ! a = s ! a \<and> snd (f a b s) ! b = s ! b \<and>
         (\<forall>p < length s. snd (f a b s) ! p = s ! p) \<and>
         (\<forall>r. fst (f a b s) = Inr r \<longrightarrow>
            \<not> r < length s \<and> r < length (snd (f a b s)) \<and> r \<noteq> a \<and> r \<noteq> b)"
proof -
  have frame: "take (length s) (snd (f a b s)) = s \<and>
     (\<forall>r. fst (f a b s) = Inr r \<longrightarrow> r = length s \<and> length (snd (f a b s)) = Suc (length s))"
    using assms(3) add_frame [of s a b] subtract_frame [of s a b] multiply_frame [of s a b]
    by auto
  have old: "snd (f a b s) ! p = s ! p" if "p < length s" for p
  proof -
    have "take (length s) (snd (f a b s)) ! p = snd (f a b s) ! p"
      using that by (rule nth_take)
    with frame show ?thesis by simp
  qed
  show ?thesis
    using frame old assms(1,2) by auto
qed

theorem operations_leave_inputs_unchanged_witness:
  "snd (add 0 1 [\<lparr>rows = 2, cols = 2, data = [((0, 0), 2), ((0, 1), 3::int)]\<rparr>,
                 \<lparr>rows = 2, cols = 2, data = [((0, 0), 4), ((1, 0), 5)]\<rparr>]) ! 0 =
     \<lparr>rows = 2, cols = 2, data = [((0, 0), 2), ((0, 1), 3)]\<rparr> \<and>
   snd (subtract 0 0 [\<lparr>rows = 2, cols = 2, data = [((0, 0), 2), ((0, 1), 3::int)]\<rparr>,
                 \<lparr>rows = 2, cols = 2, data = [((0, 0), 4), ((1, 0), 5)]\<rparr>]) ! 0 =
     \<lparr>rows = 2, cols = 2, data = [((0, 0), 2), ((0, 1), 3)]\<rparr> \<and>
   snd (multiply 0 1 [\<lparr>rows = 2, cols = 2, data = [((0, 0), 2), ((0, 1), 3::int)]\<rparr>,
                 \<lparr>rows = 2, cols = 2, data = [((0, 0), 4), ((1, 0), 5)]\<rparr>]) ! 1 =
     \<lparr>rows = 2, cols = 2, data = [((0, 0), 4), ((1, 0), 5)]\<rparr> \<and>
   fst (multiply 0 1 [\<lparr>rows = 2, cols = 2, data = [((0, 0), 2), ((0, 1), 3::int)]\<rparr>,
                 \<lparr>rows = 2, cols = 2, data = [((0, 0), 4), ((1, 0), 5)]\<rparr>]) = Inr 2"
proof -
  let ?s = "[\<lparr>rows = 2, cols = 2, data = [((0, 0), 2), ((0, 1), 3::int)]\<rparr>,
             \<lparr>rows = 2, cols = 2, data = [((0, 0), 4), ((1, 0), 5)]\<rparr>]"
  have len: "0 < length ?s" "1 < length ?s" by simp_all
  have res: "fst (multiply 0 1 ?s) = Inr 2"
    by (simp add: multiply_def check_dimensions_def SparseMatrix_init_def items_def
        b_cols_step_def set_val_def get_def)
  show ?thesis
    using operations_leave_inputs_unchanged [OF len(1) len(2), of add]
      operations_leave_inputs_unchanged [OF len(1) len(1), of subtract]
      operations_leave_inputs_unchanged [OF len(1) len(2), of multiply] res
    by simp
qed




text \<open>
  C8. \<^verbatim>\<open>get(r, c)\<close> returns the value stored at \<open>(r, c)\<close> if that key is in the mapping
  and zero otherwise. It checks no bounds and has no failing outcome (its result is a
  value, for every pair of integers); on a matrix whose keys all lie inside its shape it
  therefore returns zero at every coordinate outside the shape.
\<close>

theorem get_stored_or_zero:
  assumes "distinct (map fst (items self s))"
  shows "(\<forall>v. ((r, c), v) \<in> set (items self s) \<longrightarrow> get self r c s = v) \<and>
         ((r, c) \<notin> fst ` set (items self s) \<longrightarrow> get self r c s = 0) \<and>
         (in_bounds (s ! self) \<and> (r < 0 \<or> r \<ge> rows (s ! self) \<or> c < 0 \<or> c \<ge> cols (s ! self))
            \<longrightarrow> get self r c s = 0)"
proof (intro conjI allI impI)
  fix v assume "((r, c), v) \<in> set (items self s)"
  then have "map_of (data (s ! self)) (r, c) = Some v"
    using assms by (simp add: items_def)
  then show "get self r c s = v" by (simp add: get_def)
next
  assume "(r, c) \<notin> fst ` set (items self s)"
  then have "map_of (data (s ! self)) (r, c) = None"
    by (simp add: items_def map_of_eq_None_iff)
  then show "get self r c s = 0" by (simp add: get_def)
next
  assume "in_bounds (s ! self) \<and>
    (r < 0 \<or> r \<ge> rows (s ! self) \<or> c < 0 \<or> c \<ge> cols (s ! self))"
  then show "get self r c s = 0"
    by (intro get_outside) auto
qed

theorem get_stored_or_zero_witness:
  "get 0 0 1 [\<lparr>rows = 2, cols = 2, data = [((0, 0), 2), ((0, 1), 3::int)]\<rparr>] = 3 \<and>
   get 0 1 1 [\<lparr>rows = 2, cols = 2, data = [((0, 0), 2), ((0, 1), 3::int)]\<rparr>] = 0 \<and>
   get 0 (-1) 2 [\<lparr>rows = 2, cols = 2, data = [((0, 0), 2), ((0, 1), 3::int)]\<rparr>] = 0"
  using get_stored_or_zero [of 0 "[\<lparr>rows = 2, cols = 2, data = [((0, 0), 2), ((0, 1), 3::int)]\<rparr>]" 0 1]
    get_stored_or_zero [of 0 "[\<lparr>rows = 2, cols = 2, data = [((0, 0), 2), ((0, 1), 3::int)]\<rparr>]" 1 1]
    get_stored_or_zero [of 0 "[\<lparr>rows = 2, cols = 2, data = [((0, 0), 2), ((0, 1), 3::int)]\<rparr>]" "-1" 2]
  by (simp add: items_def in_bounds_def)

text \<open>
  C9. The claim: an out-of-bounds entry of the body is skipped, the parser does not fail
  and goes on with the remaining lines. The code prints the warning of the skipped entry
  inside the \<^verbatim>\<open>try\<close> whose \<^verbatim>\<open>except ValueError\<close> turns every \<^verbatim>\<open>ValueError\<close> into a fatal
  one. On a standard output that takes ASCII only, \<^verbatim>\<open>print\<close> raises
  \<^verbatim>\<open>UnicodeEncodeError\<close> at the first two characters of the warning, and for the file
  \<^verbatim>\<open>rows=2, cols=2, (0, 1, 7), (2, 0, 9), (1, 1, 9)\<close> the parse fails at line 4, the
  out-of-bounds line, with the message of a non-numeric value; the entry \<open>(1, 1)\<close> on the
  line after it is never read. The same file on a standard output that takes every text
  is parsed to the end, with the entries \<open>(0, 1)\<close> and \<open>(1, 1)\<close>.
\<close>

theorem parser_fails_at_out_of_bounds_line:
  "parse_matrix_file
     (\<lambda>x. if x = ''0'' then Inr 0 else if x = ''1'' then Inr 1 else if x = ''2'' then Inr 2
           else Inl ''invalid literal'')
     (\<lambda>x. if x = ''7'' then Inr (Finite 7) else if x = ''9'' then Inr (Finite 9)
           else Inl ''not a float'')
     (\<lambda>text. if list_all (\<lambda>c. \<not> digit7 c) text then Inr ()
              else Inl (ValueError ''UnicodeEncodeError''))
     [''rows=2'', ''cols=2'', ''(0, 1, 7)'', ''(2, 0, 9)'', ''(1, 1, 9)''] [] =
   (Inl (ValueError ''Non-numeric value in line 4: (2, 0, 9)''),
    [\<lparr>rows = 2, cols = 2, data = [((0, 1), Finite 7)]\<rparr>]) \<and>
   parse_matrix_file
     (\<lambda>x. if x = ''0'' then Inr 0 else if x = ''1'' then Inr 1 else if x = ''2'' then Inr 2
           else Inl ''invalid literal'')
     (\<lambda>x. if x = ''7'' then Inr (Finite 7) else if x = ''9'' then Inr (Finite 9)
           else Inl ''not a float'')
     (\<lambda>text. Inr ())
     [''rows=2'', ''cols=2'', ''(0, 1, 7)'', ''(2, 0, 9)'', ''(1, 1, 9)''] [] =
   (Inr 0, [\<lparr>rows = 2, cols = 2, data = [((0, 1), Finite 7), ((1, 1), Finite 9)]\<rparr>])"
  by (simp add: parse_matrix_file_def parse_line_def entry_of_line_def startswith_def
      endswith_def skip_warning_def SparseMatrix_init_def set_val_def zero_pyfloat_def
      enumerate_eq_zip upt_rec str_nat.simps)

theorem parser_fails_at_out_of_bounds_line_witness:
  "fst (parse_matrix_file
     (\<lambda>x. if x = ''0'' then Inr 0 else if x = ''1'' then Inr 1 else if x = ''2'' then Inr 2
           else Inl ''invalid literal'')
     (\<lambda>x. if x = ''7'' then Inr (Finite 7) else if x = ''9'' then Inr (Finite 9)
           else Inl ''not a float'')
     (\<lambda>text. if list_all (\<lambda>c. \<not> digit7 c) text then Inr ()
              else Inl (ValueError ''UnicodeEncodeError''))
     [''rows=2'', ''cols=2'', ''(0, 1, 7)'', ''(2, 0, 9)'', ''(1, 1, 9)''] []) =
   Inl (ValueError ''Non-numeric value in line 4: (2, 0, 9)'')"
  using parser_fails_at_out_of_bounds_line by simp

text \<open>
  C10. The constructor validates nothing: for all integers \<open>R\<close> and \<open>C\<close>, negative ones
  too, it returns a new matrix of that shape with an empty mapping (it has no failing
  outcome). When \<open>R \<le> 0\<close> or \<open>C \<le> 0\<close>, every \<^verbatim>\<open>set\<close> call on that matrix raises the
  \<^verbatim>\<open>IndexError\<close> and changes nothing, so after any sequence of \<^verbatim>\<open>set\<close> calls the mapping
  is still empty and \<^verbatim>\<open>get\<close> returns zero at every coordinate.
\<close>

theorem construct_without_validation:
  assumes "SparseMatrix_init R C s = (m, s0)"
  shows "m = length s \<and> length s0 = Suc (length s) \<and>
         rows (s0 ! m) = R \<and> cols (s0 ! m) = C \<and> data (s0 ! m) = [] \<and>
         (R \<le> 0 \<or> C \<le> 0 \<longrightarrow>
            (\<forall>r c v. set_val m r c (v::'v::zero) s0 = (Inl IndexOutOfBounds, s0)) \<and>
            (\<forall>calls. set_calls m calls s0 = s0 \<and> data (set_calls m calls s0 ! m) = [] \<and>
               (\<forall>r c. get m r c (set_calls m calls s0) = 0)))"
proof -
  have m: "m = length s" and s0: "s0 = s @ [\<lparr>rows = R, cols = C, data = []\<rparr>]"
    using assms by (auto simp add: SparseMatrix_init_def)
  have obj: "s0 ! m = \<lparr>rows = R, cols = C, data = []\<rparr>"
    by (simp add: m s0)
  have degenerate: "set_val m r c v s0 = (Inl IndexOutOfBounds, s0) \<and>
      set_calls m calls s0 = s0 \<and> data (set_calls m calls s0 ! m) = [] \<and>
      get m r c (set_calls m calls s0) = 0"
    if "R \<le> 0 \<or> C \<le> 0" for r c and v :: 'v and calls
  proof -
    have fail: "set_val m r' c' v' s0 = (Inl IndexOutOfBounds, s0)" for r' c' and v' :: 'v
      using that by (auto simp add: set_val_def obj IndexOutOfBounds_def)
    have "set_calls m calls s0 = s0"
      by (rule set_calls_inv [where I = "\<lambda>t. t = s0"]) (simp_all add: fail)
    then show ?thesis
      by (simp add: fail obj get_def)
  qed
  have "m = length s \<and> length s0 = Suc (length s) \<and>
      rows (s0 ! m) = R \<and> cols (s0 ! m) = C \<and> data (s0 ! m) = []"
    by (simp add: m s0)
  with degenerate show ?thesis by blast
qed

theorem construct_without_validation_witness:
  "SparseMatrix_init (-1) 3 ([] :: int store) = (0, [\<lparr>rows = -1, cols = 3, data = []\<rparr>]) \<and>
   set_val 0 0 0 (7::int) [\<lparr>rows = -1, cols = 3, data = []\<rparr>] =
     (Inl IndexOutOfBounds, [\<lparr>rows = -1, cols = 3, data = []\<rparr>]) \<and>
   data (set_calls 0 [(0, 0, 7::int), (-1, 2, 1)] [\<lparr>rows = -1, cols = 3, data = []\<rparr>] ! 0) = [] \<and>
   get 0 0 0 (set_calls 0 [(0, 0, 7::int), (-1, 2, 1)] [\<lparr>rows = -1, cols = 3, data = []\<rparr>]) = 0"
proof -
  have init: "SparseMatrix_init (-1) 3 ([] :: int store) = (0, [\<lparr>rows = -1, cols = 3, data = []\<rparr>])"
    by (simp add: SparseMatrix_init_def)
  show ?thesis
    using construct_without_validation [OF init] init by (simp add: get_def)
qed

end
